theory Spec2Isabelle
  imports Main "HOL-Library.Word" "HOL-Library.AList"
begin

unbundle bit_operations_syntax

section \<open>Bytes, Python exceptions and the struct module\<close>

text \<open>
  A Python \<open>bytes\<close> value is a list of 8-bit words. Python integers are unbounded, so
  every value that the script computes with (header fields, addresses, the padding gap)
  is an \<open>int\<close>; lengths and loop indices that \<open>range\<close> and \<open>len\<close> produce are \<open>nat\<close>.
  An uncaught exception ends the conversion; it is the \<open>Inl\<close> side of a sum.
\<close>

type_synonym byte = "8 word"

datatype error =
    StructError      \<comment> \<open>\<open>struct.error\<close>: wrong buffer size, or a value outside the field\<close>
  | TypeError        \<comment> \<open>for instance \<open>str + int\<close>, or writing a \<open>str\<close> to a binary file\<close>
  | IndexError       \<comment> \<open>index out of range\<close>
  | ValueError       \<comment> \<open>\<open>int()\<close> of a malformed literal, or a byte outside 0..255\<close>
  | AssertionError   \<comment> \<open>a failing \<open>assert\<close> whose message can be built\<close>
  | UnicodeDecodeError
  | SystemExit string \<comment> \<open>\<open>error(msg)\<close> in \<open>main\<close>: the message goes to stderr, then \<open>sys.exit(1)\<close>\<close>
  | IOError          \<comment> \<open>a file that cannot be opened\<close>
  | AttributeError   \<comment> \<open>\<open>None.group\<close> in \<open>board_id\<close>\<close>

text \<open>Python's slice \<open>buf[a:b]\<close> for \<open>0 \<le> a \<le> b\<close>: it never raises, it clips.\<close>

definition slice :: "'a list \<Rightarrow> nat \<Rightarrow> nat \<Rightarrow> 'a list" where
  "slice buf a b = take (b - a) (drop a buf)"

text \<open>\<open>struct.unpack("<I...I", b)\<close> with \<open>n\<close> fields: little-endian unsigned 32-bit words.\<close>

fun le_int :: "byte list \<Rightarrow> int" where
  "le_int [] = 0"
| "le_int (b # bs) = uint b + 256 * le_int bs"

fun unpack_words :: "nat \<Rightarrow> byte list \<Rightarrow> int list" where
  "unpack_words 0 bs = []"
| "unpack_words (Suc n) bs = le_int (take 4 bs) # unpack_words n (drop 4 bs)"

definition struct_unpack :: "nat \<Rightarrow> byte list \<Rightarrow> error + int list" where
  "struct_unpack n bs =
     (if length bs = 4 * n then Inr (unpack_words n bs) else Inl StructError)"

text \<open>\<open>struct.pack("<I...I", v1, ..., vn)\<close>: each value must fit an unsigned 32-bit field.\<close>

definition le_bytes4 :: "int \<Rightarrow> byte list" where
  "le_bytes4 v = [word_of_int v, word_of_int (v div 256),
                  word_of_int (v div 65536), word_of_int (v div 16777216)]"

definition struct_pack :: "int list \<Rightarrow> error + byte list" where
  "struct_pack vs =
     (if list_all (\<lambda>v. 0 \<le> v \<and> v < 4294967296) vs
      then Inr (concat (map le_bytes4 vs)) else Inl StructError)"

section \<open>Constants of uf2conv.py\<close>

definition UF2_MAGIC_START0 :: int where "UF2_MAGIC_START0 = 0x0A324655"
definition UF2_MAGIC_START1 :: int where "UF2_MAGIC_START1 = 0x9E5D5157"
definition UF2_MAGIC_END :: int where "UF2_MAGIC_END = 0x0AB16F30"

section \<open>convert_from_uf2\<close>

text \<open>
  The locals of \<open>convert_from_uf2\<close> that live across loop iterations, together with the
  global \<open>appstartaddr\<close> that the function assigns. The global \<open>familyid\<close> is only read
  and is a parameter. \<open>families_found\<close> is a dict: an association list in insertion
  order with distinct keys. \<open>outp\<close> is the list of chunks that \<open>b"".join\<close> concatenates.
\<close>

record uf2_state =
  curraddr :: "int option"
  currfamilyid :: "int option"
  families_found :: "(int \<times> int) list"
  prev_flag :: "int option"
  all_flags_same :: bool
  outp :: "byte list list"
  appstartaddr :: int

definition uf2_init :: "int \<Rightarrow> uf2_state" where
  "uf2_init start = \<lparr> curraddr = None, currfamilyid = None, families_found = [],
     prev_flag = None, all_flags_same = True, outp = [], appstartaddr = start \<rparr>"

text \<open>
  The inner loop \<open>while padding > 0: padding -= 4; outp.append(b"\x00\x00\x00\x00")\<close>.
\<close>

function pad_loop :: "int \<Rightarrow> byte list list \<Rightarrow> byte list list" where
  "pad_loop padding out =
     (if padding > 0 then pad_loop (padding - 4) (out @ [[0, 0, 0, 0]]) else out)"
  by pat_completeness auto
termination
  by (relation "measure (\<lambda>(padding, out). nat padding)") auto

declare pad_loop.simps [simp del]

text \<open>The dict update of lines 423 to 428: keep the smallest target address per family.\<close>

definition note_family :: "int \<Rightarrow> int \<Rightarrow> (int \<times> int) list \<Rightarrow> (int \<times> int) list" where
  "note_family fam newaddr ff =
     (case map_of ff fam of
        Some a \<Rightarrow> (if a > newaddr then AList.update fam newaddr ff else ff)
      | None \<Rightarrow> AList.update fam newaddr ff)"

text \<open>
  The part of the loop body after the header has passed the magic, no-flash and data-size
  checks (lines 402 to 432), for a block with header \<open>hdr\<close> (the tuple \<open>hd\<close> of the
  script; \<open>hd\<close> is a list function in HOL). The three \<open>assert False, "..." + ptr\<close>
  statements evaluate their message, a \<open>str + int\<close>, and so raise \<open>TypeError\<close>.
  \<open>uf2_adopt\<close> is lines 403 to 409, \<open>uf2_gap\<close> is line 410: after \<open>uf2_adopt\<close> the
  cursor is never \<open>None\<close>.
\<close>

definition uf2_gap :: "int list \<Rightarrow> uf2_state \<Rightarrow> error + int" where
  "uf2_gap hdr st =
     (case curraddr st of
        None \<Rightarrow> Inl TypeError
      | Some c \<Rightarrow> Inr (hdr ! 3 - c))"

definition uf2_adopt :: "int \<Rightarrow> int list \<Rightarrow> uf2_state \<Rightarrow> uf2_state" where
  "uf2_adopt familyid hdr st =
     (let st1 = (if hdr ! 2 AND 0x2000 \<noteq> 0 \<and> currfamilyid st = None
                 then st\<lparr>currfamilyid := Some (hdr ! 7)\<rparr> else st)
      in if curraddr st1 = None \<or> (hdr ! 2 AND 0x2000 \<noteq> 0 \<and> Some (hdr ! 7) \<noteq> currfamilyid st1)
         then st1\<lparr>currfamilyid := Some (hdr ! 7), curraddr := Some (hdr ! 3),
                  appstartaddr := (if familyid = 0 \<or> familyid = hdr ! 7
                                   then hdr ! 3 else appstartaddr st1)\<rparr>
         else st1)"

definition uf2_accept :: "int \<Rightarrow> byte list \<Rightarrow> int list \<Rightarrow> uf2_state \<Rightarrow> error + uf2_state" where
  "uf2_accept familyid block hdr st =
     (let datalen = hdr ! 4; newaddr = hdr ! 3;
          st2 = uf2_adopt familyid hdr st
      in case uf2_gap hdr st2 of
           Inl e \<Rightarrow> Inl e
         | Inr padding \<Rightarrow>
             if padding < 0 then Inl TypeError
             else if padding > 10 * 1024 * 1024 then Inl TypeError
             else if padding mod 4 \<noteq> 0 then Inl TypeError
             else
               let out1 = pad_loop padding (outp st2);
                   out2 = (if familyid = 0 \<or> (hdr ! 2 AND 0x2000 \<noteq> 0 \<and> familyid = hdr ! 7)
                           then out1 @ [slice block 32 (32 + nat datalen)] else out1);
                   ff = (if hdr ! 2 AND 0x2000 \<noteq> 0
                         then note_family (hdr ! 7) newaddr (families_found st2)
                         else families_found st2);
                   pf = (case prev_flag st2 of None \<Rightarrow> hdr ! 2 | Some f \<Rightarrow> f)
               in Inr (st2\<lparr>outp := out2, curraddr := Some (newaddr + datalen),
                           families_found := ff, prev_flag := Some pf,
                           all_flags_same := (if pf \<noteq> hdr ! 2 then False
                                              else all_flags_same st2)\<rparr>))"

text \<open>
  The summary at the last block index (lines 433 to 450). Its prints cannot fail; what
  remains is the reset of the output when several families were seen and no filter is set.
\<close>

definition uf2_summary :: "int \<Rightarrow> uf2_state \<Rightarrow> uf2_state" where
  "uf2_summary familyid st =
     (if length (families_found st) > 1 \<and> familyid = 0
      then st\<lparr>outp := [], appstartaddr := 0\<rparr> else st)"

text \<open>
  One iteration of \<open>for blockno in range(numblocks)\<close>. A bad magic reaches
  \<open>print("Skipping block at " + ptr + "; bad magic")\<close>, where \<open>ptr\<close> is an \<open>int\<close>: the
  concatenation raises \<open>TypeError\<close> before the \<open>continue\<close>. The data-size assertion builds
  its message the same way. A block with the no-flash flag leaves the iteration by
  \<open>continue\<close>, also when it is the last one.
\<close>

definition uf2_block :: "byte list \<Rightarrow> nat \<Rightarrow> byte list" where
  "uf2_block buf blockno = (let ptr = blockno * 512 in slice buf ptr (ptr + 512))"

definition uf2_header :: "byte list \<Rightarrow> error + int list" where
  "uf2_header block = struct_unpack 8 (slice block 0 32)"

definition uf2_body :: "int \<Rightarrow> byte list \<Rightarrow> nat \<Rightarrow> nat \<Rightarrow> uf2_state \<Rightarrow> error + uf2_state" where
  "uf2_body familyid buf numblocks blockno st =
     (let block = uf2_block buf blockno
      in case uf2_header block of
           Inl e \<Rightarrow> Inl e
         | Inr hdr \<Rightarrow>
             (if hdr ! 0 \<noteq> UF2_MAGIC_START0 \<or> hdr ! 1 \<noteq> UF2_MAGIC_START1 then Inl TypeError
              else if hdr ! 2 AND 1 \<noteq> 0 then Inr st
              else if hdr ! 4 > 476 then Inl TypeError
              else (case uf2_accept familyid block hdr st of
                      Inl e \<Rightarrow> Inl e
                    | Inr st' \<Rightarrow>
                        Inr (if int blockno = int numblocks - 1
                             then uf2_summary familyid st' else st'))))"

fun uf2_loop :: "int \<Rightarrow> byte list \<Rightarrow> nat \<Rightarrow> nat list \<Rightarrow> uf2_state \<Rightarrow> error + uf2_state" where
  "uf2_loop familyid buf numblocks [] st = Inr st"
| "uf2_loop familyid buf numblocks (blockno # rest) st =
     (case uf2_body familyid buf numblocks blockno st of
        Inl e \<Rightarrow> Inl e
      | Inr st' \<Rightarrow> uf2_loop familyid buf numblocks rest st')"

text \<open>
  \<open>convert_from_uf2 familyid appstartaddr buf\<close>: the result is the returned bytes and the
  value of the global \<open>appstartaddr\<close> on return.
\<close>

definition uf2_run :: "int \<Rightarrow> int \<Rightarrow> byte list \<Rightarrow> error + uf2_state" where
  "uf2_run familyid start buf =
     (let numblocks = length buf div 512
      in uf2_loop familyid buf numblocks [0..<numblocks] (uf2_init start))"

definition convert_from_uf2 :: "int \<Rightarrow> int \<Rightarrow> byte list \<Rightarrow> error + (byte list \<times> int)" where
  "convert_from_uf2 familyid start buf =
     (case uf2_run familyid start buf of
        Inl e \<Rightarrow> Inl e
      | Inr st \<Rightarrow> Inr (concat (outp st), appstartaddr st))"


section \<open>convert_to_uf2\<close>

text \<open>
  The two \<open>while\<close> loops of \<open>convert_to_uf2\<close>: \<open>datapadding\<close> grows by four zero bytes
  until it has \<open>512 - 256 - 32 - 4\<close> bytes, and a short chunk grows by one zero byte until
  it has 256.
\<close>

function mk_datapadding :: "byte list \<Rightarrow> byte list" where
  "mk_datapadding datapadding =
     (if length datapadding < 512 - 256 - 32 - 4
      then mk_datapadding (datapadding @ [0, 0, 0, 0]) else datapadding)"
  by pat_completeness auto
termination
  by (relation "measure (\<lambda>d. 220 - length d)") auto

declare mk_datapadding.simps [simp del]

function pad_chunk :: "byte list \<Rightarrow> byte list" where
  "pad_chunk chunk = (if length chunk < 256 then pad_chunk (chunk @ [0]) else chunk)"
  by pat_completeness auto
termination
  by (relation "measure (\<lambda>c. 256 - length c)") auto

declare pad_chunk.simps [simp del]

definition uf2_flags :: "int \<Rightarrow> int" where
  "uf2_flags familyid = (if familyid \<noteq> 0 then 0 OR 0x2000 else 0)"

text \<open>
  The body of \<open>for blockno in range(numblocks)\<close> in \<open>convert_to_uf2\<close>: the block built
  for one chunk. \<open>appstartaddr\<close> and \<open>familyid\<close> are the globals, read only.
\<close>

definition to_uf2_block :: "int \<Rightarrow> int \<Rightarrow> byte list \<Rightarrow> byte list \<Rightarrow> nat \<Rightarrow> nat \<Rightarrow> error + byte list" where
  "to_uf2_block familyid start datapadding file_content numblocks blockno =
     (let ptr = 256 * blockno;
          chunk = slice file_content ptr (ptr + 256);
          flags = uf2_flags familyid
      in case struct_pack [UF2_MAGIC_START0, UF2_MAGIC_START1, flags, int ptr + start, 256,
                           int blockno, int numblocks, familyid] of
           Inl e \<Rightarrow> Inl e
         | Inr hdr \<Rightarrow>
             (case struct_pack [UF2_MAGIC_END] of
                Inl e \<Rightarrow> Inl e
              | Inr tail \<Rightarrow>
                  (let block = hdr @ pad_chunk chunk @ datapadding @ tail
                   in if length block = 512 then Inr block else Inl AssertionError)))"

fun to_uf2_loop :: "int \<Rightarrow> int \<Rightarrow> byte list \<Rightarrow> byte list \<Rightarrow> nat \<Rightarrow> nat list \<Rightarrow> byte list list
    \<Rightarrow> error + byte list list" where
  "to_uf2_loop familyid start datapadding file_content numblocks [] out = Inr out"
| "to_uf2_loop familyid start datapadding file_content numblocks (blockno # rest) out =
     (case to_uf2_block familyid start datapadding file_content numblocks blockno of
        Inl e \<Rightarrow> Inl e
      | Inr block \<Rightarrow>
          to_uf2_loop familyid start datapadding file_content numblocks rest (out @ [block]))"

definition convert_to_uf2 :: "int \<Rightarrow> int \<Rightarrow> byte list \<Rightarrow> error + byte list" where
  "convert_to_uf2 familyid start file_content =
     (let datapadding = mk_datapadding [];
          numblocks = (length file_content + 255) div 256
      in case to_uf2_loop familyid start datapadding file_content numblocks [0..<numblocks] [] of
           Inl e \<Rightarrow> Inl e
         | Inr out \<Rightarrow> Inr (concat out))"

section \<open>Format detection: is_uf2 and is_hex\<close>

definition is_uf2 :: "byte list \<Rightarrow> error + bool" where
  "is_uf2 buf =
     (case struct_unpack 2 (slice buf 0 8) of
        Inl e \<Rightarrow> Inl e
      | Inr w \<Rightarrow> Inr (w ! 0 = UF2_MAGIC_START0 \<and> w ! 1 = UF2_MAGIC_START1))"

text \<open>
  \<open>bytes.decode("utf-8")\<close>, strict: the code points, or \<open>None\<close> for \<open>UnicodeDecodeError\<close>
  (a stray or missing continuation byte, an overlong form, a surrogate, a value above
  U+10FFFF).
\<close>

definition cont_byte :: "byte \<Rightarrow> bool" where
  "cont_byte b = (0x80 \<le> b \<and> b \<le> 0xBF)"

definition utf8_len :: "byte \<Rightarrow> nat" where
  "utf8_len b =
     (if b < 0x80 then 1
      else if 0xC2 \<le> b \<and> b \<le> 0xDF then 2
      else if 0xE0 \<le> b \<and> b \<le> 0xEF then 3
      else if 0xF0 \<le> b \<and> b \<le> 0xF4 then 4
      else 0)"

definition utf8_char :: "byte list \<Rightarrow> nat option" where
  "utf8_char bs =
     (case bs of
        [b] \<Rightarrow> Some (unat b)
      | [b, c1] \<Rightarrow>
          if cont_byte c1 then Some (unat (b AND 0x1F) * 64 + unat (c1 AND 0x3F)) else None
      | [b, c1, c2] \<Rightarrow>
          if (if b = 0xE0 then 0xA0 \<le> c1 \<and> c1 \<le> 0xBF
              else if b = 0xED then 0x80 \<le> c1 \<and> c1 \<le> 0x9F
              else cont_byte c1) \<and> cont_byte c2
          then Some (unat (b AND 0x0F) * 4096 + unat (c1 AND 0x3F) * 64 + unat (c2 AND 0x3F))
          else None
      | [b, c1, c2, c3] \<Rightarrow>
          if (if b = 0xF0 then 0x90 \<le> c1 \<and> c1 \<le> 0xBF
              else if b = 0xF4 then 0x80 \<le> c1 \<and> c1 \<le> 0x8F
              else cont_byte c1) \<and> cont_byte c2 \<and> cont_byte c3
          then Some (unat (b AND 0x07) * 262144 + unat (c1 AND 0x3F) * 4096
                     + unat (c2 AND 0x3F) * 64 + unat (c3 AND 0x3F))
          else None
      | _ \<Rightarrow> None)"

function utf8_decode :: "byte list \<Rightarrow> nat list option" where
  "utf8_decode [] = Some []"
| "utf8_decode (b # bs) =
     (let n = utf8_len b
      in if n = 0 \<or> length (b # bs) < n then None
         else (case utf8_char (take n (b # bs)) of
                 None \<Rightarrow> None
               | Some cp \<Rightarrow>
                   (case utf8_decode (drop (n - 1) bs) of
                      None \<Rightarrow> None
                    | Some cps \<Rightarrow> Some (cp # cps))))"
  by pat_completeness auto
termination
  by (relation "measure length") auto

text \<open>
  \<open>re.match(rb"^[:0-9a-fA-F\r\n]+$", buf)\<close>. The class contains the newline, so the end
  anchor adds nothing: the pattern matches exactly the non-empty buffers all of whose
  bytes are in the class.
\<close>

definition hex_class :: "byte \<Rightarrow> bool" where
  "hex_class b =
     (b = 0x3A \<or> (0x30 \<le> b \<and> b \<le> 0x39) \<or> (0x61 \<le> b \<and> b \<le> 0x66) \<or> (0x41 \<le> b \<and> b \<le> 0x46)
      \<or> b = 0x0D \<or> b = 0x0A)"

definition re_match_hex :: "byte list \<Rightarrow> bool" where
  "re_match_hex buf = (buf \<noteq> [] \<and> list_all hex_class buf)"

definition is_hex :: "byte list \<Rightarrow> error + bool" where
  "is_hex buf =
     (case utf8_decode (slice buf 0 30) of
        None \<Rightarrow> Inr False
      | Some w \<Rightarrow>
          (case w of
             [] \<Rightarrow> Inl IndexError
           | c # _ \<Rightarrow> Inr (c = 0x3A \<and> re_match_hex buf)))"

text \<open>
  The classification that \<open>main\<close> performs with \<open>is_uf2\<close> first and \<open>is_hex\<close> second; raw
  binary is what remains.
\<close>

datatype format = UF2 | HEX | BIN

definition detect_format :: "byte list \<Rightarrow> error + format" where
  "detect_format buf =
     (case is_uf2 buf of
        Inl e \<Rightarrow> Inl e
      | Inr from_uf2 \<Rightarrow>
          if from_uf2 then Inr UF2
          else (case is_hex buf of
                  Inl e \<Rightarrow> Inl e
                | Inr h \<Rightarrow> Inr (if h then HEX else BIN)))"

section \<open>Python's int(s, base) on text\<close>

text \<open>
  A \<open>str\<close> is a \<open>string\<close> whose characters are the code points below 256; the texts that
  the script handles (command-line arguments, the decoded hex file) are ASCII.
  \<open>py_int s base\<close> is \<open>int(s, base)\<close> for \<open>base\<close> 0 or 16, with \<open>None\<close> for \<open>ValueError\<close>:
  surrounding white space, an optional sign, for base 0 the prefixes \<open>0x\<close>, \<open>0o\<close>, \<open>0b\<close>
  (for base 16 an optional \<open>0x\<close>), digits with single underscores between them, no
  leading zeros in a non-zero decimal literal of base 0, and at most 4300 digits in a
  decimal literal.
\<close>

definition is_space :: "char \<Rightarrow> bool" where
  "is_space c = (c \<in> set [CHR 0x09, CHR 0x0A, CHR 0x0B, CHR 0x0C, CHR 0x0D, CHR 0x20,
                           CHR 0x85, CHR 0xA0])"

definition digit_value :: "char \<Rightarrow> nat" where
  "digit_value c =
     (let n = (of_char c :: nat)
      in if 48 \<le> n \<and> n \<le> 57 then n - 48
         else if 97 \<le> n \<and> n \<le> 122 then n - 87
         else if 65 \<le> n \<and> n \<le> 90 then n - 55
         else 37)"

fun scan_digits :: "nat \<Rightarrow> bool \<Rightarrow> string \<Rightarrow> nat list \<Rightarrow> (nat list \<times> string) option" where
  "scan_digits base prev_us [] acc = (if prev_us then None else Some (acc, []))"
| "scan_digits base prev_us (c # cs) acc =
     (if c = CHR ''_'' then (if prev_us then None else scan_digits base True cs acc)
      else if digit_value c < base then scan_digits base False cs (acc @ [digit_value c])
      else if prev_us then None else Some (acc, c # cs))"

definition int_sign :: "string \<Rightarrow> int \<times> string" where
  "int_sign s =
     (case s of
        [] \<Rightarrow> (1, s)
      | c # r \<Rightarrow> if c = CHR ''+'' then (1, r) else if c = CHR ''-'' then (-1, r) else (1, s))"

definition int_base :: "nat \<Rightarrow> string \<Rightarrow> nat \<times> bool" where
  "int_base base s =
     (if base \<noteq> 0 then (base, False)
      else if take 1 s \<noteq> ''0'' then (10, False)
      else if take 1 (drop 1 s) \<in> set [''x'', ''X''] then (16, False)
      else if take 1 (drop 1 s) \<in> set [''o'', ''O''] then (8, False)
      else if take 1 (drop 1 s) \<in> set [''b'', ''B''] then (2, False)
      else (10, True))"

definition int_prefix :: "nat \<Rightarrow> string \<Rightarrow> string" where
  "int_prefix base s =
     (if take 1 s = ''0'' \<and>
         ((base = 16 \<and> take 1 (drop 1 s) \<in> set [''x'', ''X'']) \<or>
          (base = 8 \<and> take 1 (drop 1 s) \<in> set [''o'', ''O'']) \<or>
          (base = 2 \<and> take 1 (drop 1 s) \<in> set [''b'', ''B'']))
      then (if take 1 (drop 2 s) = ''_'' then drop 3 s else drop 2 s)
      else s)"

definition digits_value :: "nat \<Rightarrow> nat list \<Rightarrow> int" where
  "digits_value base ds = foldl (\<lambda>v d. v * int base + int d) 0 ds"

definition py_int :: "string \<Rightarrow> nat \<Rightarrow> int option" where
  "py_int s base0 =
     (let (sign, s2) = int_sign (dropWhile is_space s);
          (base, error_if_nonzero) = int_base base0 s2;
          s3 = int_prefix base s2
      in if take 1 s3 = ''_'' then None
         else (case scan_digits base False s3 [] of
                 None \<Rightarrow> None
               | Some (ds, rest) \<Rightarrow>
                   if base \<notin> set [2, 4, 8, 16, 32] \<and> length ds > 4300 then None
                   else if error_if_nonzero \<and> digits_value base ds \<noteq> 0 then None
                   else if ds = [] then None
                   else if dropWhile is_space rest \<noteq> [] then None
                   else Some (sign * digits_value base ds)))"

section \<open>The family registry\<close>

text \<open>
  \<open>chip_families\<close>, as (id, short_name); the descriptions are never read.
\<close>

definition chip_families :: "(string \<times> string) list" where
  "chip_families = [
    (''0x16573617'', ''ATMEGA32''),
    (''0x1851780a'', ''SAML21''),
    (''0x1b57745f'', ''NRF52''),
    (''0x1c5f21b0'', ''ESP32''),
    (''0x1e1f432d'', ''STM32L1''),
    (''0x202e3a91'', ''STM32L0''),
    (''0x21460ff0'', ''STM32WL''),
    (''0x22e0d6fc'', ''RTL8710B''),
    (''0x2abc77ec'', ''LPC55''),
    (''0x300f5633'', ''STM32G0''),
    (''0x31d228c6'', ''GD32F350''),
    (''0x3379CFE2'', ''RTL8720D''),
    (''0x04240bdf'', ''STM32L5''),
    (''0x4c71240a'', ''STM32G4''),
    (''0x4fb2d5bd'', ''MIMXRT10XX''),
    (''0x51e903a8'', ''XR809''),
    (''0x53b80f00'', ''STM32F7''),
    (''0x55114460'', ''SAMD51''),
    (''0x57755a57'', ''STM32F4''),
    (''0x5a18069b'', ''FX2''),
    (''0x5d1a0a2e'', ''STM32F2''),
    (''0x5ee21072'', ''STM32F1''),
    (''0x621e937a'', ''NRF52833''),
    (''0x647824b6'', ''STM32F0''),
    (''0x675a40b0'', ''BK7231U''),
    (''0x68ed2b88'', ''SAMD21''),
    (''0x6a82cc42'', ''BK7251''),
    (''0x6b846188'', ''STM32F3''),
    (''0x6d0922fa'', ''STM32F407''),
    (''0x6db66082'', ''STM32H7''),
    (''0x70d16653'', ''STM32WB''),
    (''0x7b3ef230'', ''BK7231N''),
    (''0x7eab61ed'', ''ESP8266''),
    (''0x7f83e793'', ''KL32L2''),
    (''0x8fb060fe'', ''STM32F407VG''),
    (''0x9fffd543'', ''RTL8710A''),
    (''0xada52840'', ''NRF52840''),
    (''0xbfdd4eee'', ''ESP32S2''),
    (''0xc47e5767'', ''ESP32S3''),
    (''0xd42ba06c'', ''ESP32C3''),
    (''0x2b88d29c'', ''ESP32C2''),
    (''0x332726f6'', ''ESP32H2''),
    (''0x540ddf62'', ''ESP32C6''),
    (''0x3d308e94'', ''ESP32P4''),
    (''0xf71c0343'', ''ESP32C5''),
    (''0x77d850c4'', ''ESP32C61''),
    (''0xde1270b7'', ''BL602''),
    (''0xe08f7564'', ''RTL8720C''),
    (''0xe48bff56'', ''RP2040''),
    (''0xe48bff57'', ''RP2XXX_ABSOLUTE''),
    (''0xe48bff58'', ''RP2XXX_DATA''),
    (''0xe48bff59'', ''RP2350_ARM_S''),
    (''0xe48bff5a'', ''RP2350_RISCV''),
    (''0xe48bff5b'', ''RP2350_ARM_NS''),
    (''0x00ff6919'', ''STM32L4''),
    (''0x9af03e33'', ''GD32VF103''),
    (''0x4f6ace52'', ''CSK4''),
    (''0x6e7348a8'', ''CSK6''),
    (''0x11de784a'', ''M0SENSE''),
    (''0x4b684d71'', ''MaixPlay-U4''),
    (''0x9517422f'', ''RZA1LU''),
    (''0x2dc309c5'', ''STM32F411xE''),
    (''0x06d1097b'', ''STM32F411xC''),
    (''0x72721d4e'', ''NRF52832xxAA''),
    (''0x6f752678'', ''NRF52832xxAB''),
    (''0xa0c97b8e'', ''AT32F415''),
    (''0x699b62ec'', ''CH32V''),
    (''0x7be8976d'', ''RA4M1'')
  ]"

text \<open>
  \<open>load_families\<close>: the dict from short name to \<open>int(id, 0)\<close>, in insertion order.
\<close>

fun load_families_loop :: "(string \<times> string) list \<Rightarrow> (string \<times> int) list \<Rightarrow> error + (string \<times> int) list" where
  "load_families_loop [] families = Inr families"
| "load_families_loop ((fid, short_name) # rest) families =
     (case py_int fid 0 of
        None \<Rightarrow> Inl ValueError
      | Some v \<Rightarrow> load_families_loop rest (AList.update short_name v families))"

definition load_families :: "error + (string \<times> int) list" where
  "load_families = load_families_loop chip_families []"

text \<open>
  \<open>str.upper()\<close> on code points below 256. The sharp s becomes \<open>SS\<close>; the micro sign and
  the y with diaeresis, whose capitals lie above 255, stay as they are: either way the
  result is not ASCII and equals no short name.
\<close>

definition upper_char :: "char \<Rightarrow> string" where
  "upper_char c =
     (let n = (of_char c :: nat)
      in if 97 \<le> n \<and> n \<le> 122 then [char_of (n - 32)]
         else if n = 223 then ''SS''
         else if 224 \<le> n \<and> n \<le> 254 \<and> n \<noteq> 247 then [char_of (n - 32)]
         else [c])"

definition upper :: "string \<Rightarrow> string" where
  "upper s = concat (map upper_char s)"

fun join :: "string \<Rightarrow> string list \<Rightarrow> string" where
  "join sep [] = []"
| "join sep [x] = x"
| "join sep (x # y # ys) = x @ sep @ join sep (y # ys)"

text \<open>Lines 646 to 654 of \<open>main\<close>: the value given to the global \<open>familyid\<close>.\<close>

definition resolve_family :: "string \<Rightarrow> error + int" where
  "resolve_family family =
     (case load_families of
        Inl e \<Rightarrow> Inl e
      | Inr families \<Rightarrow>
          (case map_of families (upper family) of
             Some v \<Rightarrow> Inr v
           | None \<Rightarrow>
               (case py_int family 0 of
                  Some v \<Rightarrow> Inr v
                | None \<Rightarrow>
                    Inl (SystemExit (''Family ID needs to be a number or one of: ''
                                     @ join '', '' (map fst families))))))"


section \<open>convert_from_hex_to_uf2\<close>

text \<open>
  \<open>class Block\<close>: the aligned address and a \<open>bytearray(256)\<close>.
\<close>

record block =
  block_addr :: int
  block_bytes :: "byte list"

definition Block :: "int \<Rightarrow> block" where
  "Block a = \<lparr> block_addr = a, block_bytes = replicate 256 0 \<rparr>"

function pad_to_508 :: "byte list \<Rightarrow> byte list" where
  "pad_to_508 h = (if length h < 512 - 4 then pad_to_508 (h @ [0]) else h)"
  by pat_completeness auto
termination
  by (relation "measure (\<lambda>h. 508 - length h)") auto

declare pad_to_508.simps [simp del]

definition encode :: "int \<Rightarrow> block \<Rightarrow> nat \<Rightarrow> nat \<Rightarrow> error + byte list" where
  "encode familyid self blockno numblocks =
     (let flags = uf2_flags familyid
      in case struct_pack [UF2_MAGIC_START0, UF2_MAGIC_START1, flags, block_addr self, 256,
                           int blockno, int numblocks, familyid] of
           Inl e \<Rightarrow> Inl e
         | Inr hdr \<Rightarrow>
             (let h = pad_to_508 (hdr @ slice (block_bytes self) 0 256)
              in case struct_pack [UF2_MAGIC_END] of
                   Inl e \<Rightarrow> Inl e
                 | Inr tail \<Rightarrow> Inr (h @ tail)))"

text \<open>
  The state of the line loop. \<open>currblock\<close> is the object appended last to \<open>blocks\<close>, so it
  is the last element of the list, and \<open>None\<close> exactly while the list is empty; a byte
  stored through \<open>currblock\<close> is stored in that element.
\<close>

record hex_state =
  hex_appstartaddr :: "int option"
  hex_upper :: int
  blocks :: "block list"

definition hex_init :: hex_state where
  "hex_init = \<lparr> hex_appstartaddr = None, hex_upper = 0, blocks = [] \<rparr>"

text \<open>
  The body of the inner \<open>while i < len(rec) - 1\<close> for the byte \<open>v = rec[i]\<close> at \<open>addr\<close>
  (lines 532 to 535). A \<open>bytearray\<close> takes only values in \<open>range(0, 256)\<close>.
\<close>

definition hex_put :: "hex_state \<Rightarrow> int \<Rightarrow> int \<Rightarrow> error + hex_state" where
  "hex_put st addr v =
     (let bs = (if blocks st = [] \<or> block_addr (last (blocks st)) AND NOT 0xff \<noteq> addr AND NOT 0xff
                then blocks st @ [Block (addr AND NOT 0xff)] else blocks st);
          currblock = last bs
      in if 0 \<le> v \<and> v < 256
         then Inr (st\<lparr>blocks := butlast bs @
                      [currblock\<lparr>block_bytes := (block_bytes currblock)[nat (addr AND 0xff) := word_of_int v]\<rparr>]\<rparr>)
         else Inl ValueError)"

fun hex_data :: "hex_state \<Rightarrow> int \<Rightarrow> int list \<Rightarrow> error + hex_state" where
  "hex_data st addr [] = Inr st"
| "hex_data st addr (v # vs) =
     (case hex_put st addr v of
        Inl e \<Rightarrow> Inl e
      | Inr st' \<Rightarrow> hex_data st' (addr + 1) vs)"

text \<open>
  \<open>while i < len(line) - 1: rec.append(int(line[i:i+2], 16)); i += 2\<close>, on the text from
  index \<open>i\<close> on: the loop runs while two characters remain.
\<close>

fun hex_pairs :: "string \<Rightarrow> error + int list" where
  "hex_pairs (a # b # cs) =
     (case py_int [a, b] 16 of
        None \<Rightarrow> Inl ValueError
      | Some v \<Rightarrow> (case hex_pairs cs of Inl e \<Rightarrow> Inl e | Inr vs \<Rightarrow> Inr (v # vs)))"
| "hex_pairs cs = Inr []"

text \<open>The bytes \<open>rec[4]\<close> to \<open>rec[len(rec) - 2]\<close> that the inner loop of a data record visits.\<close>

definition rec_data :: "int list \<Rightarrow> int list" where
  "rec_data rec = slice rec 4 (length rec - 1)"

definition rec_addr :: "int \<Rightarrow> int list \<Rightarrow> int" where
  "rec_addr upper_acc rec = upper_acc + (push_bit 8 (rec ! 1) OR rec ! 2)"

text \<open>
  One line of the loop (lines 512 to 537): the new state, and whether the loop goes on
  (\<open>False\<close> is the \<open>break\<close> at an end-of-file record). Indexing the empty line, or a record
  that is too short, raises \<open>IndexError\<close>.
\<close>

definition hex_line :: "hex_state \<Rightarrow> string \<Rightarrow> error + (hex_state \<times> bool)" where
  "hex_line st line =
     (if line = [] then Inl IndexError
      else if take 1 line \<noteq> '':'' then Inr (st, True)
      else (case hex_pairs (drop 1 line) of
              Inl e \<Rightarrow> Inl e
            | Inr rec \<Rightarrow>
                if length rec < 4 then Inl IndexError
                else let tp = rec ! 3
                 in if tp = 4 then
                      (if length rec < 6 then Inl IndexError
                       else Inr (st\<lparr>hex_upper := push_bit 16 (push_bit 8 (rec ! 4) OR rec ! 5)\<rparr>, True))
                    else if tp = 2 then
                      (if length rec < 6 then Inl IndexError
                       else Inr (st\<lparr>hex_upper := push_bit 4 (push_bit 8 (rec ! 4) OR rec ! 5)\<rparr>, True))
                    else if tp = 1 then Inr (st, False)
                    else if tp = 0 then
                      (let addr = rec_addr (hex_upper st) rec;
                           st1 = (if hex_appstartaddr st = None
                                  then st\<lparr>hex_appstartaddr := Some addr\<rparr> else st)
                       in case hex_data st1 addr (rec_data rec) of
                            Inl e \<Rightarrow> Inl e
                          | Inr st2 \<Rightarrow> Inr (st2, True))
                    else Inr (st, True)))"

fun hex_lines :: "hex_state \<Rightarrow> string list \<Rightarrow> error + hex_state" where
  "hex_lines st [] = Inr st"
| "hex_lines st (line # rest) =
     (case hex_line st line of
        Inl e \<Rightarrow> Inl e
      | Inr (st', go_on) \<Rightarrow> if go_on then hex_lines st' rest else Inr st')"

text \<open>\<open>buf.split('\n')\<close>: always at least one piece.\<close>

fun split_lines :: "string \<Rightarrow> string list" where
  "split_lines [] = [[]]"
| "split_lines (c # cs) =
     (if c = CHR 0x0A then [] # split_lines cs
      else (case split_lines cs of
              [] \<Rightarrow> [[c]]
            | l # ls \<Rightarrow> (c # l) # ls))"

fun encode_loop :: "int \<Rightarrow> block list \<Rightarrow> nat \<Rightarrow> nat list \<Rightarrow> byte list \<Rightarrow> error + byte list" where
  "encode_loop familyid bs numblocks [] resfile = Inr resfile"
| "encode_loop familyid bs numblocks (i # rest) resfile =
     (case encode familyid (bs ! i) i numblocks of
        Inl e \<Rightarrow> Inl e
      | Inr b \<Rightarrow> encode_loop familyid bs numblocks rest (resfile @ b))"

text \<open>
  \<open>convert_from_hex_to_uf2 familyid buf\<close>: the returned bytes and the value of the global
  \<open>appstartaddr\<close> on return, which is \<open>None\<close> when no data record was read.
\<close>

definition hex_run :: "string \<Rightarrow> error + hex_state" where
  "hex_run buf = hex_lines hex_init (split_lines buf)"

definition convert_from_hex_to_uf2 :: "int \<Rightarrow> string \<Rightarrow> error + (byte list \<times> int option)" where
  "convert_from_hex_to_uf2 familyid buf =
     (case hex_run buf of
        Inl e \<Rightarrow> Inl e
      | Inr st \<Rightarrow>
          (let numblocks = length (blocks st)
           in case encode_loop familyid (blocks st) numblocks [0..<numblocks] [] of
                Inl e \<Rightarrow> Inl e
              | Inr resfile \<Rightarrow> Inr (resfile, hex_appstartaddr st)))"


section \<open>convert_to_carray\<close>

function dec_str :: "nat \<Rightarrow> string" where
  "dec_str n = (if n < 10 then [char_of (48 + n)] else dec_str (n div 10) @ [char_of (48 + n mod 10)])"
  by pat_completeness auto
termination
  by (relation "measure id") auto

declare dec_str.simps [simp del]

definition hex_digit :: "nat \<Rightarrow> char" where
  "hex_digit d = (if d < 10 then char_of (48 + d) else char_of (87 + d))"

definition hex2 :: "byte \<Rightarrow> string" where
  "hex2 b = [hex_digit (unat b div 16), hex_digit (unat b mod 16)]"

fun carray_loop :: "byte list \<Rightarrow> nat list \<Rightarrow> string \<Rightarrow> string" where
  "carray_loop file_content [] out = out"
| "carray_loop file_content (i # rest) out =
     carray_loop file_content rest
       ((if i mod 16 = 0 then out @ [CHR 0x0A] else out) @ ''0x'' @ hex2 (file_content ! i) @ '', '')"

definition convert_to_carray :: "byte list \<Rightarrow> byte list" where
  "convert_to_carray file_content =
     (let out = ''const unsigned long bindata_len = '' @ dec_str (length file_content) @ '';'' @ [CHR 0x0A];
          out = out @ ''const unsigned char bindata[] __attribute__((aligned(16))) = {'';
          out = carray_loop file_content [0..<length file_content] out;
          out = out @ [CHR 0x0A] @ ''};'' @ [CHR 0x0A]
      in map of_char out)"

section \<open>main\<close>

text \<open>
  The parsed command line. \<open>arg_device_path\<close> is parsed and never read.
\<close>

record args =
  arg_input :: "string option"
  arg_base :: string
  arg_family :: string
  arg_output :: "string option"
  arg_device_path :: "string option"
  arg_list :: bool
  arg_convert :: bool
  arg_deploy :: bool
  arg_wait :: bool
  arg_carray :: bool
  arg_info :: bool

text \<open>
  \<open>outbuf\<close> is a \<open>bytes\<close> value on every path but one: in info mode it is the \<open>str\<close> \<open>""\<close>.
\<close>

datatype pybuf = Bytes "byte list" | Str string

text \<open>
  What a run does to the file system: \<open>File name content\<close> says that \<open>name\<close> was opened
  for writing (created or truncated) and holds \<open>content\<close> afterwards. A run returns, ends
  in an exception, or stays in the poll loop for ever.
\<close>

datatype effect = File string "byte list"

datatype outcome = Returned | Raised error | Polling

text \<open>
  \<open>write_file\<close>: \<open>open(name, "wb")\<close> is taken to succeed; \<open>f.write\<close> of a \<open>str\<close> on a binary
  file raises \<open>TypeError\<close> after the file has been created empty.
\<close>

definition write_file :: "string \<Rightarrow> pybuf \<Rightarrow> effect list \<times> error option" where
  "write_file name buf =
     (case buf of
        Bytes b \<Rightarrow> ([File name b], None)
      | Str s \<Rightarrow> ([File name []], Some TypeError))"

text \<open>
  The environment of a run: \<open>files\<close> gives the content of a readable file, \<open>drives_at n\<close> is
  what the call number \<open>n\<close> of \<open>get_drives\<close> returns, \<open>board_id\<close> is \<open>board_id\<close> of a drive.
  The poll loop \<open>while len(drives) == 0: sleep(0.1); drives = get_drives()\<close> has no bound.
\<close>

partial_function (option) wait_loop :: "(nat \<Rightarrow> string list) \<Rightarrow> nat \<Rightarrow> string list option" where
  "wait_loop drives_at n =
     (if drives_at n = [] then wait_loop drives_at (Suc n) else Some (drives_at n))"

declare wait_loop.simps [code]

fun list_drives :: "(string \<Rightarrow> error + string) \<Rightarrow> string list \<Rightarrow> outcome" where
  "list_drives board_id [] = Returned"
| "list_drives board_id (d # ds) =
     (case board_id d of Inl e \<Rightarrow> Raised e | Inr b \<Rightarrow> list_drives board_id ds)"

fun flash_loop :: "(string \<Rightarrow> error + string) \<Rightarrow> pybuf \<Rightarrow> string list \<Rightarrow> effect list
    \<Rightarrow> effect list \<times> outcome" where
  "flash_loop board_id outbuf [] eff = (eff, Returned)"
| "flash_loop board_id outbuf (d # ds) eff =
     (case board_id d of
        Inl e \<Rightarrow> (eff, Raised e)
      | Inr b \<Rightarrow>
          (case write_file (d @ ''/NEW.UF2'') outbuf of
             (w, Some e) \<Rightarrow> (eff @ w, Raised e)
           | (w, None) \<Rightarrow> flash_loop board_id outbuf ds (eff @ w)))"

text \<open>
  Lines 663 to 679: the conversion chosen, giving \<open>outbuf\<close>, \<open>ext\<close> and the global
  \<open>appstartaddr\<close> afterwards. \<open>inpbuf.decode("utf-8")\<close> is applied to a buffer that \<open>is_hex\<close>
  has accepted.
\<close>

definition convert_step :: "args \<Rightarrow> int \<Rightarrow> int \<Rightarrow> bool \<Rightarrow> byte list
    \<Rightarrow> error + (pybuf \<times> string \<times> int option)" where
  "convert_step a familyid start from_uf2 inpbuf =
     (if arg_deploy a then Inr (Bytes inpbuf, ''uf2'', Some start)
      else if from_uf2 \<and> \<not> arg_info a then
        (case convert_from_uf2 familyid start inpbuf of
           Inl e \<Rightarrow> Inl e
         | Inr (b, s) \<Rightarrow> Inr (Bytes b, ''bin'', Some s))
      else if from_uf2 \<and> arg_info a then
        (case convert_from_uf2 familyid start inpbuf of
           Inl e \<Rightarrow> Inl e
         | Inr (b, s) \<Rightarrow> Inr (Str [], ''uf2'', Some s))
      else (case is_hex inpbuf of
              Inl e \<Rightarrow> Inl e
            | Inr h \<Rightarrow>
                if h then
                  (case utf8_decode inpbuf of
                     None \<Rightarrow> Inl UnicodeDecodeError
                   | Some cps \<Rightarrow>
                       (case convert_from_hex_to_uf2 familyid (map char_of cps) of
                          Inl e \<Rightarrow> Inl e
                        | Inr (b, s) \<Rightarrow> Inr (Bytes b, ''uf2'', s)))
                else if arg_carray a then Inr (Bytes (convert_to_carray inpbuf), ''h'', Some start)
                else (case convert_to_uf2 familyid start inpbuf of
                        Inl e \<Rightarrow> Inl e
                      | Inr b \<Rightarrow> Inr (Bytes b, ''uf2'', Some start))))"

text \<open>
  Lines 680 to 700: the summary line (its \<open>%x\<close> needs an integer), the output file, the
  drives.
\<close>

definition deliver :: "args \<Rightarrow> (nat \<Rightarrow> string list) \<Rightarrow> (string \<Rightarrow> error + string)
    \<Rightarrow> pybuf \<Rightarrow> string \<Rightarrow> int option \<Rightarrow> effect list \<times> outcome" where
  "deliver a drives_at board_id outbuf ext start =
     (if \<not> arg_deploy a \<and> \<not> arg_info a \<and> start = None then ([], Raised TypeError)
      else
        let output = (if (arg_convert a \<or> ext \<noteq> ''uf2'') \<and> arg_output a = None
                      then Some (''flash.'' @ ext) else arg_output a);
            named = (output \<noteq> None \<and> output \<noteq> Some []);
            (eff, err) = (if named then write_file (the output) outbuf else ([], None))
        in case err of
             Some e \<Rightarrow> (eff, Raised e)
           | None \<Rightarrow>
               if ext = ''uf2'' \<and> \<not> arg_convert a \<and> \<not> arg_info a then
                 (if drives_at 0 = [] then
                    (if arg_wait a then
                       (case wait_loop drives_at 1 of
                          None \<Rightarrow> (eff, Polling)
                        | Some drives \<Rightarrow> flash_loop board_id outbuf drives eff)
                     else if \<not> named then (eff, Raised (SystemExit ''No drive to deploy.''))
                     else (eff, Returned))
                  else flash_loop board_id outbuf (drives_at 0) eff)
               else (eff, Returned))"

definition main :: "args \<Rightarrow> (string \<Rightarrow> byte list option) \<Rightarrow> (nat \<Rightarrow> string list)
    \<Rightarrow> (string \<Rightarrow> error + string) \<Rightarrow> effect list \<times> outcome" where
  "main a files drives_at board_id =
     (case py_int (arg_base a) 0 of
        None \<Rightarrow> ([], Raised ValueError)
      | Some start \<Rightarrow>
          (case resolve_family (arg_family a) of
             Inl e \<Rightarrow> ([], Raised e)
           | Inr familyid \<Rightarrow>
               if arg_list a then ([], list_drives board_id (drives_at 0))
               else if arg_input a = None \<or> arg_input a = Some [] then
                 ([], Raised (SystemExit ''Need input file''))
               else (case files (the (arg_input a)) of
                       None \<Rightarrow> ([], Raised IOError)
                     | Some inpbuf \<Rightarrow>
                         (case is_uf2 inpbuf of
                            Inl e \<Rightarrow> ([], Raised e)
                          | Inr from_uf2 \<Rightarrow>
                              (case convert_step a familyid start from_uf2 inpbuf of
                                 Inl e \<Rightarrow> ([], Raised e)
                               | Inr (outbuf, ext, start') \<Rightarrow>
                                   deliver a drives_at board_id outbuf ext start')))))"


section \<open>Notions used to state the properties\<close>

text \<open>
  These definitions are not code of the script. They name what the statements below talk
  about: the tests that the loop of \<open>convert_from_uf2\<close> makes on a header, the buffers that
  are well formed, the family tags present, and the gaps that a run computes.
\<close>

definition uf2_magic_ok :: "int list \<Rightarrow> bool" where
  "uf2_magic_ok hdr = (hdr ! 0 = UF2_MAGIC_START0 \<and> hdr ! 1 = UF2_MAGIC_START1)"

definition uf2_noflash :: "int list \<Rightarrow> bool" where
  "uf2_noflash hdr = (hdr ! 2 AND 1 \<noteq> 0)"

definition uf2_tagged :: "int list \<Rightarrow> bool" where
  "uf2_tagged hdr = (hdr ! 2 AND 0x2000 \<noteq> 0)"

text \<open>
  A well-formed buffer: the length is a multiple of 512, and every block has both start
  magics and a payload length of at most 476.
\<close>

definition uf2_block_ok :: "byte list \<Rightarrow> nat \<Rightarrow> bool" where
  "uf2_block_ok buf i =
     (case uf2_header (uf2_block buf i) of
        Inl e \<Rightarrow> False
      | Inr hdr \<Rightarrow> uf2_magic_ok hdr \<and> hdr ! 4 \<le> 476)"

definition uf2_wellformed :: "byte list \<Rightarrow> bool" where
  "uf2_wellformed buf =
     (length buf mod 512 = 0 \<and> list_all (uf2_block_ok buf) [0..<length buf div 512])"

text \<open>The family IDs of the family-tagged blocks, in file order; homogeneous tagging.\<close>

definition uf2_tags :: "byte list \<Rightarrow> int list" where
  "uf2_tags buf =
     concat (map (\<lambda>i. case uf2_header (uf2_block buf i) of
                         Inl e \<Rightarrow> []
                       | Inr hdr \<Rightarrow> if uf2_tagged hdr then [hdr ! 7] else [])
                 [0..<length buf div 512])"

definition uf2_homogeneous :: "byte list \<Rightarrow> bool" where
  "uf2_homogeneous buf = (length (remdups (uf2_tags buf)) \<le> 1)"

text \<open>
  The family IDs that a run observes, in file order: those of the blocks that are tagged
  and do not carry the no-flash flag (the loop leaves a no-flash block by \<open>continue\<close>
  before it reads the tag). \<open>uf2_last_skipped\<close> holds when the last block is such a
  no-flash block.
\<close>

definition uf2_observed_at :: "byte list \<Rightarrow> nat \<Rightarrow> int list" where
  "uf2_observed_at buf i =
     (case uf2_header (uf2_block buf i) of
        Inl e \<Rightarrow> []
      | Inr hdr \<Rightarrow> if uf2_tagged hdr \<and> \<not> uf2_noflash hdr then [hdr ! 7] else [])"

definition uf2_observed :: "byte list \<Rightarrow> int list" where
  "uf2_observed buf = concat (map (uf2_observed_at buf) [0..<length buf div 512])"

definition uf2_last_skipped :: "byte list \<Rightarrow> bool" where
  "uf2_last_skipped buf =
     (case uf2_header (uf2_block buf (length buf div 512 - 1)) of
        Inl e \<Rightarrow> False
      | Inr hdr \<Rightarrow> uf2_noflash hdr)"

text \<open>
  The gap that the iteration for block \<open>blockno\<close> computes at line 410 when it starts in
  state \<open>st\<close>; \<open>None\<close> when the iteration does not reach that line. \<open>uf2_gaps\<close> lists the
  gaps of a run over the block indices \<open>ixs\<close>, up to and including the gap at which the
  run stops.
\<close>

definition uf2_block_gap :: "int \<Rightarrow> byte list \<Rightarrow> nat \<Rightarrow> uf2_state \<Rightarrow> int option" where
  "uf2_block_gap familyid buf blockno st =
     (case uf2_header (uf2_block buf blockno) of
        Inl e \<Rightarrow> None
      | Inr hdr \<Rightarrow>
          if \<not> uf2_magic_ok hdr \<or> uf2_noflash hdr \<or> hdr ! 4 > 476 then None
          else (case uf2_gap hdr (uf2_adopt familyid hdr st) of
                  Inl e \<Rightarrow> None
                | Inr g \<Rightarrow> Some g))"

fun uf2_gaps :: "int \<Rightarrow> byte list \<Rightarrow> nat \<Rightarrow> nat list \<Rightarrow> uf2_state \<Rightarrow> int list" where
  "uf2_gaps familyid buf numblocks [] st = []"
| "uf2_gaps familyid buf numblocks (blockno # rest) st =
     (case uf2_block_gap familyid buf blockno st of None \<Rightarrow> [] | Some g \<Rightarrow> [g])
     @ (case uf2_body familyid buf numblocks blockno st of
          Inl e \<Rightarrow> []
        | Inr st' \<Rightarrow> uf2_gaps familyid buf numblocks rest st')"

definition uf2_run_gaps :: "int \<Rightarrow> int \<Rightarrow> byte list \<Rightarrow> int list" where
  "uf2_run_gaps familyid start buf =
     uf2_gaps familyid buf (length buf div 512) [0..<length buf div 512] (uf2_init start)"

definition gap_ok :: "int \<Rightarrow> bool" where
  "gap_ok g = (0 \<le> g \<and> g \<le> 10 * 1024 * 1024 \<and> g mod 4 = 0)"

text \<open>
  What \<open>convert_to_uf2\<close> builds, written out: the padded chunk number \<open>i\<close> of the content,
  the eight header fields of block \<open>i\<close>, and the 512-byte block. \<open>rt_inv\<close> is the state of
  \<open>convert_from_uf2\<close> after \<open>k\<close> blocks of such an image.
\<close>

definition chunk_of :: "byte list \<Rightarrow> nat \<Rightarrow> byte list" where
  "chunk_of content i = (let c = slice content (256 * i) (256 * i + 256) in c @ replicate (256 - length c) 0)"

definition header_of :: "int \<Rightarrow> int \<Rightarrow> nat \<Rightarrow> nat \<Rightarrow> int list" where
  "header_of familyid start n i =
     [UF2_MAGIC_START0, UF2_MAGIC_START1, uf2_flags familyid, int (256 * i) + start, 256, int i, int n, familyid]"

definition enc_block :: "int \<Rightarrow> int \<Rightarrow> byte list \<Rightarrow> nat \<Rightarrow> nat \<Rightarrow> byte list" where
  "enc_block familyid start content n i =
     concat (map le_bytes4 (header_of familyid start n i)) @ chunk_of content i
       @ replicate 220 0 @ le_bytes4 UF2_MAGIC_END"

definition rt_inv :: "int \<Rightarrow> int \<Rightarrow> byte list \<Rightarrow> nat \<Rightarrow> uf2_state \<Rightarrow> bool" where
  "rt_inv familyid start content k st =
     (outp st = map (chunk_of content) [0..<k] \<and>
      (if k = 0 then curraddr st = None \<and> currfamilyid st = None \<and> families_found st = []
       else appstartaddr st = start \<and>
            curraddr st = Some (start + 256 * int k) \<and> currfamilyid st = Some familyid \<and>
            families_found st = (if familyid \<noteq> 0 then [(familyid, start)] else [])))"

text \<open>
  A sample block for the instances below: 512 bytes with the three magics, the
  given flags, target address and family field, and the payload at offset 32.
\<close>

definition sample_block :: "int \<Rightarrow> int \<Rightarrow> int \<Rightarrow> byte list \<Rightarrow> byte list" where
  "sample_block flags addr fam payload =
     concat (map le_bytes4 [UF2_MAGIC_START0, UF2_MAGIC_START1, flags, addr,
                            int (length payload), 0, 1, fam])
     @ payload @ replicate (476 - length payload) 0 @ le_bytes4 UF2_MAGIC_END"










text \<open>
  Numeric literals: a non-empty run of digits of a base, and the number it denotes.
\<close>

definition digits_in :: "nat \<Rightarrow> string \<Rightarrow> bool" where
  "digits_in base ds = (ds \<noteq> [] \<and> list_all (\<lambda>c. digit_value c < base) ds)"

definition literal_value :: "nat \<Rightarrow> string \<Rightarrow> int" where
  "literal_value base ds = digits_value base (map digit_value ds)"


text \<open>
  A sample run for the instances about \<open>main\<close>: the command line \<open>uf2conv.py in.uf2 --info\<close>
  with every other option at its default, and a file system in which \<open>in.uf2\<close> holds one
  UF2 block.
\<close>

definition sample_args :: args where
  "sample_args = \<lparr> arg_input = Some ''in.uf2'', arg_base = ''0x2000'', arg_family = ''0x0'',
     arg_output = None, arg_device_path = None, arg_list = False, arg_convert = False,
     arg_deploy = False, arg_wait = False, arg_carray = False, arg_info = True \<rparr>"

definition sample_files :: "string \<Rightarrow> byte list option" where
  "sample_files name =
     (if name = ''in.uf2'' then Some (sample_block 0 0x2000 0 [1, 2, 3, 4]) else None)"

section \<open>The padding gap of an accepted block\<close>



lemma curraddr_uf2_adopt: "curraddr (uf2_adopt familyid hdr st) \<noteq> None"
  by (simp add: uf2_adopt_def Let_def)

lemma uf2_gap_adopt: "\<exists>gap. uf2_gap hdr (uf2_adopt familyid hdr st) = Inr gap"
  using curraddr_uf2_adopt[of familyid hdr st] by (auto simp: uf2_gap_def split: option.splits)

lemma slice_take:
  "b \<le> n \<Longrightarrow> slice (take n buf) a b = slice buf a b"
proof -
  assume le: "b \<le> n"
  have "take (b - a) (drop a (take n buf)) = take (b - a) (take (n - a) (drop a buf))"
    by (simp only: drop_take)
  also have "\<dots> = take (b - a) (drop a buf)"
    using le by (simp add: min_def)
  finally show ?thesis by (simp only: slice_def)
qed






section \<open>Bytes after the last complete block\<close>

lemma uf2_block_take:
  assumes "blockno < n"
  shows "uf2_block (take (512 * n) buf) blockno = uf2_block buf blockno"
proof -
  from assms have "blockno * 512 + 512 \<le> 512 * n" by simp
  then show ?thesis by (simp add: uf2_block_def Let_def slice_take)
qed

lemma uf2_body_block:
  "uf2_block buf blockno = uf2_block buf' blockno \<Longrightarrow>
   uf2_body familyid buf numblocks blockno st = uf2_body familyid buf' numblocks blockno st"
  by (simp add: uf2_body_def)

lemma uf2_loop_blocks:
  "(\<And>i. i \<in> set ixs \<Longrightarrow> uf2_block buf i = uf2_block buf' i) \<Longrightarrow>
   uf2_loop familyid buf numblocks ixs st = uf2_loop familyid buf' numblocks ixs st"
proof (induction ixs arbitrary: st)
  case Nil
  show ?case by simp
next
  case (Cons i ixs)
  have "uf2_body familyid buf numblocks i st = uf2_body familyid buf' numblocks i st"
    by (rule uf2_body_block) (simp add: Cons.prems)
  moreover have "uf2_loop familyid buf numblocks ixs st' = uf2_loop familyid buf' numblocks ixs st'" for st'
    by (rule Cons.IH) (simp add: Cons.prems)
  ultimately show ?case by (simp split: sum.splits)
qed

lemma numblocks_take: "length (take (512 * (length buf div 512)) buf) div 512 = length buf div 512"
proof -
  have "512 * (length buf div 512) \<le> length buf" by simp
  then have "length (take (512 * (length buf div 512)) buf) = 512 * (length buf div 512)"
    by (simp only: length_take min_absorb2)
  then show ?thesis by simp
qed

lemma uf2_run_take:
  "uf2_run familyid start (take (512 * (length buf div 512)) buf) = uf2_run familyid start buf"
proof -
  let ?n = "length buf div 512"
  have "uf2_loop familyid (take (512 * ?n) buf) ?n [0..<?n] (uf2_init start)
        = uf2_loop familyid buf ?n [0..<?n] (uf2_init start)"
    by (rule uf2_loop_blocks) (simp add: uf2_block_take)
  then show ?thesis
    by (simp only: uf2_run_def Let_def numblocks_take)
qed

text \<open>
  C9. \<open>convert_from_uf2\<close> reads only the first \<open>len(buf) // 512\<close> complete blocks: the
  result for any buffer, bytes and start address or the exception alike, is the result for
  the buffer cut down to its complete blocks, so the trailing \<open>len(buf) % 512\<close> bytes
  neither raise anything nor change anything.
\<close>

theorem uf2_trailing_bytes_ignored:
  "convert_from_uf2 familyid start buf =
     convert_from_uf2 familyid start (take (512 * (length buf div 512)) buf)"
  by (simp only: convert_from_uf2_def uf2_run_take)


section \<open>Well-formed buffers and the gap guard\<close>

lemma uf2_accept_fails_iff:
  "uf2_gap hdr (uf2_adopt familyid hdr st) = Inr gap \<Longrightarrow>
   (\<exists>e. uf2_accept familyid block hdr st = Inl e) \<longleftrightarrow> \<not> gap_ok gap"
  by (auto simp add: uf2_accept_def Let_def gap_ok_def)

lemma sum_cases_ex: "(\<exists>e. x = Inl e) \<or> (\<exists>r. x = Inr r)"
  by (cases x) auto

lemma uf2_body_step:
  assumes h: "uf2_header (uf2_block buf i) = Inr hdr" and m: "uf2_magic_ok hdr" and l: "hdr ! 4 \<le> 476"
  shows "if uf2_noflash hdr
         then uf2_block_gap familyid buf i st = None \<and> uf2_body familyid buf n i st = Inr st
         else \<exists>g. uf2_block_gap familyid buf i st = Some g \<and>
                  ((\<exists>st'. uf2_body familyid buf n i st = Inr st') \<longleftrightarrow> gap_ok g)"
proof (cases "uf2_noflash hdr")
  case True
  with h m l show ?thesis
    by (simp add: uf2_block_gap_def uf2_body_def uf2_magic_ok_def uf2_noflash_def)
next
  case False
  obtain g where g: "uf2_gap hdr (uf2_adopt familyid hdr st) = Inr g"
    using uf2_gap_adopt by blast
  have bg: "uf2_block_gap familyid buf i st = Some g"
    using h m l False g by (simp add: uf2_block_gap_def)
  have "(\<exists>st'. uf2_body familyid buf n i st = Inr st') \<longleftrightarrow>
        (\<exists>st'. uf2_accept familyid (uf2_block buf i) hdr st = Inr st')"
    using h m l False
    by (auto simp add: uf2_body_def uf2_magic_ok_def uf2_noflash_def split: sum.splits)
  also have "\<dots> \<longleftrightarrow> \<not> (\<exists>e. uf2_accept familyid (uf2_block buf i) hdr st = Inl e)"
    by (cases "uf2_accept familyid (uf2_block buf i) hdr st") auto
  also have "\<dots> \<longleftrightarrow> gap_ok g"
    using uf2_accept_fails_iff[OF g] by simp
  finally show ?thesis using False bg by simp
qed

lemma uf2_loop_gaps:
  "list_all (uf2_block_ok buf) ixs \<Longrightarrow>
   (\<exists>st'. uf2_loop familyid buf n ixs st = Inr st') \<longleftrightarrow>
   list_all gap_ok (uf2_gaps familyid buf n ixs st)"
proof (induction ixs arbitrary: st)
  case Nil
  show ?case by simp
next
  case (Cons i ixs)
  from Cons.prems obtain hdr where h: "uf2_header (uf2_block buf i) = Inr hdr"
    and m: "uf2_magic_ok hdr" and l: "hdr ! 4 \<le> 476"
    by (auto simp: uf2_block_ok_def split: sum.splits)
  from Cons.prems have rest: "list_all (uf2_block_ok buf) ixs" by simp
  note step = uf2_body_step[OF h m l, of familyid st n]
  show ?case
  proof (cases "uf2_noflash hdr")
    case True
    with step have "uf2_block_gap familyid buf i st = None" "uf2_body familyid buf n i st = Inr st"
      by simp_all
    then show ?thesis using Cons.IH[OF rest, of st] by simp
  next
    case False
    with step obtain g where bg: "uf2_block_gap familyid buf i st = Some g"
      and iff: "(\<exists>st'. uf2_body familyid buf n i st = Inr st') \<longleftrightarrow> gap_ok g"
      by auto
    show ?thesis
    proof (cases "uf2_body familyid buf n i st")
      case (Inl e)
      with iff have "\<not> gap_ok g" by simp
      with Inl bg show ?thesis by simp
    next
      case (Inr st1)
      with iff have "gap_ok g" by auto
      with Inr bg show ?thesis using Cons.IH[OF rest, of st1] by simp
    qed
  qed
qed

text \<open>
  C7, as the code has it. A well-formed buffer (length a multiple of 512, valid magics,
  payload length at most 476) with homogeneous family tagging can still make
  \<open>convert_from_uf2\<close> fail: the guard on the padding gap is the one thing left that raises,
  and well-formedness does not restrict target addresses. The decoding succeeds exactly
  when every gap it computes is a non-negative multiple of 4 of at most 10 MiB; so in
  every successful run each computed gap is a non-negative multiple of 4.
\<close>

theorem uf2_wellformed_fails_only_on_gap:
  assumes "uf2_wellformed buf" and "uf2_homogeneous buf"
  shows "((\<exists>r. convert_from_uf2 familyid start buf = Inr r) \<longleftrightarrow>
            list_all gap_ok (uf2_run_gaps familyid start buf)) \<and>
         ((\<exists>r. convert_from_uf2 familyid start buf = Inr r) \<longrightarrow>
            (\<forall>g \<in> set (uf2_run_gaps familyid start buf). 0 \<le> g \<and> g mod 4 = 0))"
proof -
  let ?n = "length buf div 512"
  from assms(1) have ok: "list_all (uf2_block_ok buf) [0..<?n]"
    by (simp add: uf2_wellformed_def)
  have "(\<exists>r. convert_from_uf2 familyid start buf = Inr r) \<longleftrightarrow>
        (\<exists>st. uf2_run familyid start buf = Inr st)"
    by (cases "uf2_run familyid start buf") (simp_all add: convert_from_uf2_def)
  also have "\<dots> \<longleftrightarrow> list_all gap_ok (uf2_run_gaps familyid start buf)"
    using uf2_loop_gaps[OF ok, of familyid ?n "uf2_init start"]
    by (simp add: uf2_run_def uf2_run_gaps_def Let_def)
  finally have iff: "(\<exists>r. convert_from_uf2 familyid start buf = Inr r) \<longleftrightarrow>
            list_all gap_ok (uf2_run_gaps familyid start buf)" .
  moreover have "\<forall>g \<in> set (uf2_run_gaps familyid start buf). 0 \<le> g \<and> g mod 4 = 0"
    if "list_all gap_ok (uf2_run_gaps familyid start buf)"
    using that by (auto simp: list_all_iff gap_ok_def)
  ultimately show ?thesis by blast
qed

text \<open>
  The claim as stated fails on two untagged blocks of four payload bytes that both target
  address 0: the buffer is well formed and homogeneous, the second gap is \<open>0 - 4\<close>, and the
  decoding raises.
\<close>

theorem uf2_wellformed_fails_counterexample:
  "uf2_wellformed (sample_block 0 0 0 [1, 2, 3, 4] @ sample_block 0 0 0 [5, 6, 7, 8]) \<and>
   uf2_homogeneous (sample_block 0 0 0 [1, 2, 3, 4] @ sample_block 0 0 0 [5, 6, 7, 8]) \<and>
   convert_from_uf2 0 0 (sample_block 0 0 0 [1, 2, 3, 4] @ sample_block 0 0 0 [5, 6, 7, 8])
     = Inl TypeError \<and>
   uf2_run_gaps 0 0 (sample_block 0 0 0 [1, 2, 3, 4] @ sample_block 0 0 0 [5, 6, 7, 8]) = [0, - 4]"
  by code_simp

text \<open>
  An instance where the decoding succeeds: two blocks of family 5 at 0x2000 and 0x2008.
\<close>

theorem uf2_wellformed_fails_only_on_gap_witness:
  "uf2_wellformed (sample_block 0x2000 0x2000 5 [1, 2, 3, 4] @ sample_block 0x2000 0x2008 5 [5, 6, 7, 8]) \<and>
   uf2_homogeneous (sample_block 0x2000 0x2000 5 [1, 2, 3, 4] @ sample_block 0x2000 0x2008 5 [5, 6, 7, 8]) \<and>
   uf2_run_gaps 5 0 (sample_block 0x2000 0x2000 5 [1, 2, 3, 4] @ sample_block 0x2000 0x2008 5 [5, 6, 7, 8]) = [0, 4] \<and>
   (\<exists>r. convert_from_uf2 5 0 (sample_block 0x2000 0x2000 5 [1, 2, 3, 4] @ sample_block 0x2000 0x2008 5 [5, 6, 7, 8]) = Inr r)"
proof -
  let ?B = "sample_block 0x2000 0x2000 5 [1, 2, 3, 4] @ sample_block 0x2000 0x2008 5 [5, 6, 7, 8]"
  have w: "uf2_wellformed ?B" by code_simp
  have h: "uf2_homogeneous ?B" by code_simp
  have g: "uf2_run_gaps 5 0 ?B = [0, 4]" by code_simp
  have "list_all gap_ok (uf2_run_gaps 5 0 ?B)" by (simp add: g gap_ok_def)
  with uf2_wellformed_fails_only_on_gap[OF w h, of 5 0]
  have "\<exists>r. convert_from_uf2 5 0 ?B = Inr r" by blast
  with w h g show ?thesis by blast
qed

section \<open>Several families and no filter\<close>

lemma uf2_loop_append:
  "uf2_loop familyid buf n (xs @ ys) st =
     (case uf2_loop familyid buf n xs st of
        Inl e \<Rightarrow> Inl e
      | Inr st' \<Rightarrow> uf2_loop familyid buf n ys st')"
  by (induction xs arbitrary: st) (simp_all split: sum.splits)

lemma families_found_summary: "families_found (uf2_summary familyid st) = families_found st"
  by (simp add: uf2_summary_def)

lemma two_keys_length:
  assumes "a \<in> fst ` set xs" and "b \<in> fst ` set xs" and "a \<noteq> b"
  shows "1 < length xs"
proof (cases xs)
  case Nil
  with assms show ?thesis by simp
next
  case (Cons x ys)
  show ?thesis
  proof (cases ys)
    case Nil
    with Cons assms show ?thesis by auto
  next
    case (Cons y zs)
    with \<open>xs = x # ys\<close> show ?thesis by simp
  qed
qed

lemma uf2_last_body_clears:
  assumes body: "uf2_body 0 buf n i st1 = Inr st"
    and last: "int i = int n - 1"
    and h: "uf2_header (uf2_block buf i) = Inr hdr"
    and nf: "\<not> uf2_noflash hdr"
    and many: "1 < length (families_found st)"
  shows "outp st = [] \<and> appstartaddr st = 0"
proof -
  from body h nf obtain st' where acc: "uf2_accept 0 (uf2_block buf i) hdr st1 = Inr st'"
    and st: "st = (if int i = int n - 1 then uf2_summary 0 st' else st')"
    by (auto simp: uf2_body_def uf2_noflash_def split: if_splits sum.splits)
  from st last have st_eq: "st = uf2_summary 0 st'" by simp
  with many have "1 < length (families_found st')" by (simp add: families_found_summary)
  with st_eq show ?thesis by (simp add: uf2_summary_def)
qed

lemma uf2_run_last:
  assumes run: "uf2_run familyid start buf = Inr st" and pos: "0 < length buf div 512"
  shows "\<exists>st1. uf2_body familyid buf (length buf div 512) (length buf div 512 - 1) st1 = Inr st"
proof -
  let ?n = "length buf div 512"
  from pos have upt: "[0..<?n] = [0..<?n - 1] @ [?n - 1]"
    by (metis Suc_pred' upt_Suc_append zero_le)
  from run have "uf2_loop familyid buf ?n ([0..<?n - 1] @ [?n - 1]) (uf2_init start) = Inr st"
    unfolding uf2_run_def Let_def using upt by simp
  then show ?thesis
    by (auto simp: uf2_loop_append split: sum.splits)
qed

lemma pad_loop_0: "pad_loop 0 out = out"
  by (subst pad_loop.simps) simp


lemma uf2_first_tagged:
  assumes t: "uf2_tagged h"
  shows "\<exists>st1. uf2_accept 0 b h (uf2_init start) = Inr st1 \<and>
               currfamilyid st1 = Some (h ! 7) \<and> families_found st1 = [(h ! 7, h ! 3)]"
  using t
  by (simp add: uf2_accept_def uf2_adopt_def uf2_gap_def uf2_init_def Let_def pad_loop_0
        note_family_def uf2_tagged_def)

lemma uf2_other_family:
  assumes t: "uf2_tagged h" and c: "currfamilyid st = Some f" and ne: "f \<noteq> h ! 7"
    and ff: "families_found st = [(f, a)]"
  shows "\<exists>st2. uf2_accept 0 b h st = Inr st2 \<and>
               families_found st2 = [(f, a), (h ! 7, h ! 3)]"
  using t c ne ff
  by (simp add: uf2_accept_def uf2_adopt_def uf2_gap_def Let_def pad_loop_0
        note_family_def uf2_tagged_def)

lemma uf2_body_accept:
  assumes "uf2_header (uf2_block buf i) = Inr h" and "uf2_magic_ok h" and "\<not> uf2_noflash h"
    and "h ! 4 \<le> 476" and "uf2_accept familyid (uf2_block buf i) h st = Inr st'"
  shows "uf2_body familyid buf n i st = Inr (if int i = int n - 1 then uf2_summary familyid st' else st')"
  using assms by (simp add: uf2_body_def uf2_magic_ok_def uf2_noflash_def)

lemma uf2_two_families:
  assumes n: "length buf div 512 = 2"
    and h0: "uf2_header (uf2_block buf 0) = Inr h0"
    and h1: "uf2_header (uf2_block buf 1) = Inr h1"
    and m0: "uf2_magic_ok h0" and m1: "uf2_magic_ok h1"
    and nf0: "\<not> uf2_noflash h0" and nf1: "\<not> uf2_noflash h1"
    and l0: "h0 ! 4 \<le> 476" and l1: "h1 ! 4 \<le> 476"
    and t0: "uf2_tagged h0" and t1: "uf2_tagged h1"
    and ne: "h0 ! 7 \<noteq> h1 ! 7"
  shows "convert_from_uf2 0 start buf = Inr ([], 0)"
proof -
  from uf2_first_tagged[OF t0, of "uf2_block buf 0" start] obtain st1 where
    a0: "uf2_accept 0 (uf2_block buf 0) h0 (uf2_init start) = Inr st1"
    and c1: "currfamilyid st1 = Some (h0 ! 7)"
    and f1: "families_found st1 = [(h0 ! 7, h0 ! 3)]" by blast
  from uf2_other_family[OF t1 c1 ne f1, of "uf2_block buf 1"] obtain st2 where
    a1: "uf2_accept 0 (uf2_block buf 1) h1 st1 = Inr st2"
    and f2: "families_found st2 = [(h0 ! 7, h0 ! 3), (h1 ! 7, h1 ! 3)]" by blast
  have b0: "uf2_body 0 buf 2 0 (uf2_init start) = Inr st1"
    using uf2_body_accept[OF h0 m0 nf0 l0 a0, of 2] by simp
  have b1: "uf2_body 0 buf 2 1 st1 = Inr (uf2_summary 0 st2)"
    using uf2_body_accept[OF h1 m1 nf1 l1 a1, of 2] by simp
  have "[0..<2] = [0, Suc 0]" by (simp add: upt_rec)
  then have "uf2_run 0 start buf = Inr (uf2_summary 0 st2)"
    using b0 b1 by (simp add: uf2_run_def n)
  then show ?thesis
    using f2 by (simp add: convert_from_uf2_def uf2_summary_def)
qed

text \<open>
  The families that a run records are exactly the family IDs observed in the input: every
  accepted tagged block adds its family to \<open>families_found\<close>, and no step removes one.
\<close>

lemma note_family_keys: "fst ` set (note_family k v ff) = insert k (fst ` set ff)"
proof (cases "map_of ff k")
  case None
  then show ?thesis by (simp add: note_family_def dom_update)
next
  case (Some a)
  then have "(k, a) \<in> set ff" by (rule map_of_SomeD)
  then have "k \<in> fst ` set ff" by force
  with Some show ?thesis by (auto simp: note_family_def dom_update)
qed

lemma families_found_adopt: "families_found (uf2_adopt familyid hdr st) = families_found st"
  by (simp add: uf2_adopt_def Let_def)

lemma uf2_accept_families:
  assumes "uf2_accept familyid block hdr st = Inr st'"
  shows "families_found st' =
           (if uf2_tagged hdr then note_family (hdr ! 7) (hdr ! 3) (families_found st)
            else families_found st)"
proof -
  obtain gap where g: "uf2_gap hdr (uf2_adopt familyid hdr st) = Inr gap"
    using uf2_gap_adopt by blast
  from assms g have ok: "\<not> gap < 0" "\<not> gap > 10 * 1024 * 1024" "gap mod 4 = 0"
    by (auto simp: uf2_accept_def Let_def split: if_splits)
  from assms g ok show ?thesis
    by (auto simp: uf2_accept_def Let_def uf2_tagged_def families_found_adopt)
qed

lemma uf2_accept_keys:
  assumes "uf2_accept familyid block hdr st = Inr st'"
  shows "fst ` set (families_found st') =
           fst ` set (families_found st) \<union> (if uf2_tagged hdr then {hdr ! 7} else {})"
  by (simp add: uf2_accept_families[OF assms] note_family_keys)

lemma uf2_body_keys:
  assumes "uf2_body familyid buf n i st = Inr st'"
  shows "fst ` set (families_found st') = fst ` set (families_found st) \<union> set (uf2_observed_at buf i)"
proof -
  from assms obtain hdr where h: "uf2_header (uf2_block buf i) = Inr hdr"
    by (cases "uf2_header (uf2_block buf i)") (auto simp: uf2_body_def Let_def)
  show ?thesis
  proof (cases "uf2_noflash hdr")
    case True
    with assms h have "st' = st"
      by (auto simp: uf2_body_def Let_def uf2_noflash_def split: if_splits)
    with True h show ?thesis by (simp add: uf2_observed_at_def)
  next
    case False
    with assms h obtain st2 where acc: "uf2_accept familyid (uf2_block buf i) hdr st = Inr st2"
      and st': "st' = (if int i = int n - 1 then uf2_summary familyid st2 else st2)"
      by (auto simp: uf2_body_def Let_def uf2_noflash_def split: if_splits sum.splits)
    from st' have "families_found st' = families_found st2"
      by (simp add: families_found_summary)
    with uf2_accept_keys[OF acc] False h show ?thesis
      by (simp add: uf2_observed_at_def)
  qed
qed

lemma uf2_loop_keys:
  "uf2_loop familyid buf n ixs st = Inr st' \<Longrightarrow>
     fst ` set (families_found st') =
       fst ` set (families_found st) \<union> set (concat (map (uf2_observed_at buf) ixs))"
proof (induction ixs arbitrary: st)
  case Nil
  then show ?case by simp
next
  case (Cons i rest)
  from Cons.prems obtain st1 where b: "uf2_body familyid buf n i st = Inr st1"
    and l: "uf2_loop familyid buf n rest st1 = Inr st'"
    by (auto split: sum.splits)
  from Cons.IH[OF l] uf2_body_keys[OF b] show ?case by auto
qed

lemma uf2_run_keys:
  assumes "uf2_run familyid start buf = Inr st"
  shows "fst ` set (families_found st) = set (uf2_observed buf)"
  using uf2_loop_keys[of familyid buf "length buf div 512" "[0..<length buf div 512]" "uf2_init start" st]
    assms
  by (simp add: uf2_run_def Let_def uf2_observed_def uf2_init_def)

lemma uf2_observed_many:
  assumes run: "uf2_run familyid start buf = Inr st"
    and many: "1 < length (remdups (uf2_observed buf))"
  shows "1 < length (families_found st)"
proof -
  have "length (remdups (uf2_observed buf)) = card (fst ` set (families_found st))"
    by (simp add: length_remdups_card_conv uf2_run_keys[OF run])
  also have "\<dots> \<le> card (set (families_found st))" by (rule card_image_le) simp
  also have "\<dots> \<le> length (families_found st)" by (rule card_length)
  finally show ?thesis using many by simp
qed

lemma uf2_observed_pos:
  assumes "1 < length (remdups (uf2_observed buf))"
  shows "0 < length buf div 512"
proof (rule ccontr)
  assume "\<not> 0 < length buf div 512"
  then have "uf2_observed buf = []" by (simp add: uf2_observed_def)
  with assms show False by simp
qed

lemma uf2_multi_observed:
  assumes run: "uf2_run 0 start buf = Inr st"
    and ns: "\<not> uf2_last_skipped buf"
    and many: "1 < length (remdups (uf2_observed buf))"
  shows "convert_from_uf2 0 start buf = Inr ([], 0)"
proof -
  let ?n = "length buf div 512"
  have pos: "0 < ?n" using many by (rule uf2_observed_pos)
  from uf2_run_last[OF run pos] obtain st1 where
    body: "uf2_body 0 buf ?n (?n - 1) st1 = Inr st" by blast
  then obtain hdr where h: "uf2_header (uf2_block buf (?n - 1)) = Inr hdr"
    by (cases "uf2_header (uf2_block buf (?n - 1))") (auto simp: uf2_body_def Let_def)
  with ns have nf: "\<not> uf2_noflash hdr" by (simp add: uf2_last_skipped_def)
  from pos have last: "int (?n - 1) = int ?n - 1" by simp
  from uf2_last_body_clears[OF body last h nf uf2_observed_many[OF run many]] run
  show ?thesis by (simp add: convert_from_uf2_def)
qed

text \<open>
  C2, as the code has it. The reset of the output is part of the iteration for the last
  block index, so it is reached when the decoding does not raise and the last block is
  not left by \<open>continue\<close>. Under these two conditions, if blocks tagged with more than one
  distinct family ID are observed in the input buffer, decoding with no filter returns the
  empty byte sequence and start address 0. In particular this holds for every two-block
  buffer whose blocks are accepted and carry two distinct family tags: such a buffer never
  makes the decoding raise.
\<close>

theorem uf2_multi_family_empty:
  "((\<exists>r. convert_from_uf2 0 start buf = Inr r) \<and> \<not> uf2_last_skipped buf \<and>
    1 < length (remdups (uf2_observed buf))
    \<longrightarrow> convert_from_uf2 0 start buf = Inr ([], 0))
   \<and>
   (length buf div 512 = 2 \<and>
    uf2_header (uf2_block buf 0) = Inr h0 \<and> uf2_header (uf2_block buf 1) = Inr h1 \<and>
    uf2_magic_ok h0 \<and> uf2_magic_ok h1 \<and> \<not> uf2_noflash h0 \<and> \<not> uf2_noflash h1 \<and>
    h0 ! 4 \<le> 476 \<and> h1 ! 4 \<le> 476 \<and> uf2_tagged h0 \<and> uf2_tagged h1 \<and> h0 ! 7 \<noteq> h1 ! 7
    \<longrightarrow> convert_from_uf2 0 start buf = Inr ([], 0))"
proof (intro conjI impI)
  assume a: "(\<exists>r. convert_from_uf2 0 start buf = Inr r) \<and> \<not> uf2_last_skipped buf \<and>
    1 < length (remdups (uf2_observed buf))"
  then obtain st where run: "uf2_run 0 start buf = Inr st"
    by (cases "uf2_run 0 start buf") (auto simp: convert_from_uf2_def)
  from a have ns: "\<not> uf2_last_skipped buf" and many: "1 < length (remdups (uf2_observed buf))"
    by simp_all
  from run ns many show "convert_from_uf2 0 start buf = Inr ([], 0)"
    by (rule uf2_multi_observed)
next
  assume "length buf div 512 = 2 \<and>
    uf2_header (uf2_block buf 0) = Inr h0 \<and> uf2_header (uf2_block buf 1) = Inr h1 \<and>
    uf2_magic_ok h0 \<and> uf2_magic_ok h1 \<and> \<not> uf2_noflash h0 \<and> \<not> uf2_noflash h1 \<and>
    h0 ! 4 \<le> 476 \<and> h1 ! 4 \<le> 476 \<and> uf2_tagged h0 \<and> uf2_tagged h1 \<and> h0 ! 7 \<noteq> h1 ! 7"
  then show "convert_from_uf2 0 start buf = Inr ([], 0)"
    using uf2_two_families[of buf h0 h1 start] by blast
qed


text \<open>
  The claim as stated, for every buffer in which two families are observed, fails where
  the decoding raises: here blocks of families 1 and 2 are followed by a second block of
  family 2 that targets address 0 again, behind the cursor.
\<close>

theorem uf2_multi_family_counterexample:
  "uf2_observed (sample_block 0x2000 0 1 [1, 2, 3, 4] @ sample_block 0x2000 0 2 [5, 6, 7, 8]
             @ sample_block 0x2000 0 2 [5, 6, 7, 8]) = [1, 2, 2] \<and>
   convert_from_uf2 0 0 (sample_block 0x2000 0 1 [1, 2, 3, 4] @ sample_block 0x2000 0 2 [5, 6, 7, 8]
             @ sample_block 0x2000 0 2 [5, 6, 7, 8]) = Inl TypeError"
  by code_simp

text \<open>
  The other condition: when the last block carries the no-flash flag, its iteration ends
  at \<open>continue\<close> before the summary, and the bytes of both families are returned.
\<close>

lemma uf2_multi_family_noflash_last:
  "uf2_observed (sample_block 0x2000 0 1 [1, 2, 3, 4] @ sample_block 0x2000 0 2 [5, 6, 7, 8]
             @ sample_block 0x2001 0 2 [9]) = [1, 2] \<and>
   uf2_last_skipped (sample_block 0x2000 0 1 [1, 2, 3, 4] @ sample_block 0x2000 0 2 [5, 6, 7, 8]
             @ sample_block 0x2001 0 2 [9]) \<and>
   convert_from_uf2 0 0 (sample_block 0x2000 0 1 [1, 2, 3, 4] @ sample_block 0x2000 0 2 [5, 6, 7, 8]
             @ sample_block 0x2001 0 2 [9]) = Inr ([1, 2, 3, 4, 5, 6, 7, 8], 0)"
  by code_simp

text \<open>
  A tagged block with the no-flash flag is skipped before its tag is read, so its family
  is not among the observed ones: the two accepted blocks here are of one family, and
  their bytes are returned.
\<close>

lemma uf2_noflash_tag_not_observed:
  "uf2_tags (sample_block 0x2000 0 1 [1, 2, 3, 4] @ sample_block 0x2001 0 2 [9]
             @ sample_block 0x2000 4 1 [5, 6, 7, 8]) = [1, 2, 1] \<and>
   uf2_observed (sample_block 0x2000 0 1 [1, 2, 3, 4] @ sample_block 0x2001 0 2 [9]
             @ sample_block 0x2000 4 1 [5, 6, 7, 8]) = [1, 1] \<and>
   convert_from_uf2 0 7 (sample_block 0x2000 0 1 [1, 2, 3, 4] @ sample_block 0x2001 0 2 [9]
             @ sample_block 0x2000 4 1 [5, 6, 7, 8]) = Inr ([1, 2, 3, 4, 5, 6, 7, 8], 0)"
  by code_simp

text \<open>
  An instance of both parts: three blocks of families 1, 2 and 1, the last one lowering the
  smallest address of family 1, and two blocks of families 1 and 2.
\<close>

theorem uf2_multi_family_empty_witness:
  "(\<exists>r. convert_from_uf2 0 7 (sample_block 0x2000 0x100 1 [1, 2, 3, 4] @ sample_block 0x2000 0x200 2 [5, 6, 7, 8]
             @ sample_block 0x2000 0 1 [9, 9, 9, 9]) = Inr r) \<and>
   \<not> uf2_last_skipped (sample_block 0x2000 0x100 1 [1, 2, 3, 4] @ sample_block 0x2000 0x200 2 [5, 6, 7, 8]
             @ sample_block 0x2000 0 1 [9, 9, 9, 9]) \<and>
   uf2_observed (sample_block 0x2000 0x100 1 [1, 2, 3, 4] @ sample_block 0x2000 0x200 2 [5, 6, 7, 8]
             @ sample_block 0x2000 0 1 [9, 9, 9, 9]) = [1, 2, 1] \<and>
   convert_from_uf2 0 7 (sample_block 0x2000 0x100 1 [1, 2, 3, 4] @ sample_block 0x2000 0x200 2 [5, 6, 7, 8]
             @ sample_block 0x2000 0 1 [9, 9, 9, 9]) = Inr ([], 0) \<and>
   length (sample_block 0x2000 0 1 [1, 2, 3, 4] @ sample_block 0x2000 0 2 [5, 6, 7, 8]) div 512 = 2 \<and>
   convert_from_uf2 0 7 (sample_block 0x2000 0 1 [1, 2, 3, 4] @ sample_block 0x2000 0 2 [5, 6, 7, 8]) = Inr ([], 0)"
proof -
  let ?A = "sample_block 0x2000 0x100 1 [1, 2, 3, 4] @ sample_block 0x2000 0x200 2 [5, 6, 7, 8]
             @ sample_block 0x2000 0 1 [9, 9, 9, 9]"
  let ?B = "sample_block 0x2000 0 1 [1, 2, 3, 4] @ sample_block 0x2000 0 2 [5, 6, 7, 8]"
  let ?h0 = "[UF2_MAGIC_START0, UF2_MAGIC_START1, 0x2000, 0, 4, 0, 1, 1]"
  let ?h1 = "[UF2_MAGIC_START0, UF2_MAGIC_START1, 0x2000, 0, 4, 0, 1, 2]"
  have ok: "\<not> isl (convert_from_uf2 0 7 ?A)" by code_simp
  then have r: "\<exists>r. convert_from_uf2 0 7 ?A = Inr r"
    by (cases "convert_from_uf2 0 7 ?A") auto
  have ns: "\<not> uf2_last_skipped ?A" by code_simp
  have obs: "uf2_observed ?A = [1, 2, 1]" by code_simp
  then have many: "1 < length (remdups (uf2_observed ?A))" by simp
  from uf2_multi_family_empty[where start = 7 and buf = ?A, THEN conjunct1] r ns many
  have c1: "convert_from_uf2 0 7 ?A = Inr ([], 0)" by blast
  have n: "length ?B div 512 = 2" by code_simp
  have h0: "uf2_header (uf2_block ?B 0) = Inr ?h0" by code_simp
  have h1: "uf2_header (uf2_block ?B 1) = Inr ?h1" by code_simp
  have p0: "uf2_magic_ok ?h0" "\<not> uf2_noflash ?h0" "?h0 ! 4 \<le> 476" "uf2_tagged ?h0"
    by (simp_all add: uf2_magic_ok_def uf2_noflash_def uf2_tagged_def)
  have p1: "uf2_magic_ok ?h1" "\<not> uf2_noflash ?h1" "?h1 ! 4 \<le> 476" "uf2_tagged ?h1"
    by (simp_all add: uf2_magic_ok_def uf2_noflash_def uf2_tagged_def)
  have ne: "?h0 ! 7 \<noteq> ?h1 ! 7" by simp
  from uf2_multi_family_empty[where buf = ?B and start = 7 and ?h0.0 = ?h0 and ?h1.0 = ?h1, THEN conjunct2]
    n h0 h1 p0 p1 ne
  have c2: "convert_from_uf2 0 7 ?B = Inr ([], 0)" by blast
  from r ns obs c1 n c2 show ?thesis by blast
qed


section \<open>Format detection on short buffers\<close>

text \<open>
  \<open>is_uf2\<close> unpacks \<open>buf[0:8]\<close> as two words without looking at its length, so a buffer of
  fewer than eight bytes raises \<open>struct.error\<close>; \<open>main\<close> calls \<open>is_uf2\<close> first on every
  input. From eight bytes on the detection is total: \<open>is_hex\<close> indexes the decoded text,
  which is empty only for the empty buffer.
\<close>

lemma is_uf2_short: "length buf < 8 \<Longrightarrow> is_uf2 buf = Inl StructError"
  by (simp add: is_uf2_def struct_unpack_def slice_def)

lemma is_uf2_long: "8 \<le> length buf \<Longrightarrow> \<exists>b. is_uf2 buf = Inr b"
  by (simp add: is_uf2_def struct_unpack_def slice_def min_def)

lemma utf8_decode_nonempty: "utf8_decode (b # bs) \<noteq> Some []"
  by (simp add: Let_def split: option.splits)

lemma is_hex_total: "buf \<noteq> [] \<Longrightarrow> \<exists>b. is_hex buf = Inr b"
proof -
  assume "buf \<noteq> []"
  then obtain b bs where "slice buf 0 30 = b # bs"
    by (cases buf) (simp_all add: slice_def)
  then show ?thesis
    using utf8_decode_nonempty[of b bs]
    by (auto simp: is_hex_def split: option.splits list.splits)
qed

lemma detect_format_long: "8 \<le> length buf \<Longrightarrow> \<exists>f. detect_format buf = Inr f"
proof -
  assume l: "8 \<le> length buf"
  then have ne: "buf \<noteq> []" by auto
  from is_uf2_long[OF l] is_hex_total[OF ne] show ?thesis
    by (auto simp: detect_format_def)
qed

text \<open>
  C4. The claim that detection never raises, the empty buffer and buffers shorter than
  eight bytes included, does not hold of the code: on the empty buffer and on the four
  bytes \<open>:00\<close> and newline, \<open>is_uf2\<close> and with it the detection raise \<open>struct.error\<close>.
\<close>

theorem detect_format_short_raises:
  "is_uf2 [] = Inl StructError \<and> detect_format [] = Inl StructError \<and>
   detect_format [0x3A, 0x30, 0x30, 0x0A] = Inl StructError"
  by (simp add: detect_format_def is_uf2_def struct_unpack_def slice_def)


section \<open>Encoding and decoding again\<close>

lemma uint_byte_of_int: "uint (word_of_int x :: byte) = x mod 256"
  by (simp add: uint_word_of_int take_bit_eq_mod)

lemma le_int_le_bytes4:
  assumes "0 \<le> v" and "v < 4294967296"
  shows "le_int (le_bytes4 v) = v"
proof -
  define a where "a = v div 256"
  define b where "b = a div 256"
  define c where "c = b div 256"
  have d1: "v div 65536 = b"
    unfolding a_def b_def using zdiv_zmult2_eq[of 256 v 256] by simp
  have d2: "v div 16777216 = c"
    unfolding c_def d1[symmetric] using zdiv_zmult2_eq[of 65536 v 256] by simp
  have e1: "v = v mod 256 + 256 * a" unfolding a_def by simp
  have e2: "a = a mod 256 + 256 * b" unfolding b_def by simp
  have e3: "b = b mod 256 + 256 * c" unfolding c_def by simp
  have "v = 16777216 * c + v mod 16777216" unfolding d2[symmetric] by simp
  moreover have "0 \<le> v mod 16777216" "v mod 16777216 < 16777216" by simp_all
  ultimately have c: "0 \<le> c" "c < 256" using assms by linarith+
  then have e4: "c mod 256 = c" by simp
  have "le_int (le_bytes4 v) = v mod 256 + 256 * (a mod 256 + 256 * (b mod 256 + 256 * (c mod 256)))"
    by (simp add: le_bytes4_def uint_byte_of_int d1 d2 a_def[symmetric])
  also have "\<dots> = v mod 256 + 256 * (a mod 256 + 256 * (b mod 256 + 256 * c))"
    by (simp only: e4)
  also have "\<dots> = v mod 256 + 256 * (a mod 256 + 256 * b)"
    using e3 by simp
  also have "\<dots> = v mod 256 + 256 * a"
    using e2 by simp
  also have "\<dots> = v" using e1 by simp
  finally show ?thesis .
qed

lemma length_le_bytes4: "length (le_bytes4 v) = 4"
  by (simp add: le_bytes4_def)

lemma unpack_words_concat:
  "list_all (\<lambda>v. 0 \<le> v \<and> v < 4294967296) vs \<Longrightarrow>
   unpack_words (length vs) (concat (map le_bytes4 vs) @ rest) = vs"
proof (induction vs)
  case Nil
  show ?case by simp
next
  case (Cons v vs)
  then have v: "0 \<le> v" "v < 4294967296" and vs: "list_all (\<lambda>v. 0 \<le> v \<and> v < 4294967296) vs"
    by simp_all
  show ?case
    using Cons.IH[OF vs] le_int_le_bytes4[OF v]
    by (simp add: length_le_bytes4)
qed

lemma length_concat_le_bytes4: "length (concat (map le_bytes4 vs)) = 4 * length vs"
  by (induction vs) (simp_all add: length_le_bytes4)

lemma struct_pack_Inr:
  "struct_pack vs = Inr bs \<Longrightarrow>
   list_all (\<lambda>v. 0 \<le> v \<and> v < 4294967296) vs \<and> bs = concat (map le_bytes4 vs)"
  by (auto simp: struct_pack_def split: if_splits)

lemma struct_unpack_pack:
  assumes "struct_pack vs = Inr bs"
  shows "struct_unpack (length vs) bs = Inr vs"
proof -
  from struct_pack_Inr[OF assms] have r: "list_all (\<lambda>v. 0 \<le> v \<and> v < 4294967296) vs"
    and bs: "bs = concat (map le_bytes4 vs)" by simp_all
  from unpack_words_concat[OF r, of "[]"] show ?thesis
    by (simp add: struct_unpack_def bs length_concat_le_bytes4)
qed

lemma mk_datapadding_Nil: "mk_datapadding [] = replicate 220 0"
  by code_simp

lemma pad_chunk_eq:
  "length c \<le> 256 \<Longrightarrow> pad_chunk c = c @ replicate (256 - length c) 0"
proof (induction c rule: pad_chunk.induct)
  case (1 c)
  show ?case
  proof (cases "length c < 256")
    case True
    then have "256 - length c = Suc (256 - length (c @ [0::byte]))" by simp
    then have r: "replicate (256 - length c) (0::byte) = [0] @ replicate (256 - length (c @ [0::byte])) 0"
      by simp
    have "pad_chunk c = pad_chunk (c @ [0])"
      using True by (subst pad_chunk.simps) simp
    also have "\<dots> = (c @ [0]) @ replicate (256 - length (c @ [0::byte])) 0"
      using 1(1) True by simp
    finally show ?thesis by (simp only: r append_assoc)
  next
    case False
    with 1(2) have "length c = 256" by simp
    then show ?thesis by (subst pad_chunk.simps) simp
  qed
qed

lemma length_slice_le: "length (slice xs a (a + k)) \<le> k"
  by (simp add: slice_def)

lemma length_chunk_of: "length (chunk_of content i) = 256"
  using length_slice_le[of content "256 * i" 256] by (simp add: chunk_of_def Let_def)

lemma to_uf2_block_Inr:
  assumes "to_uf2_block familyid start (replicate 220 0) content n i = Inr blk"
  shows "list_all (\<lambda>v. 0 \<le> v \<and> v < 4294967296) (header_of familyid start n i) \<and>
         blk = concat (map le_bytes4 (header_of familyid start n i)) @ chunk_of content i
               @ replicate 220 0 @ le_bytes4 UF2_MAGIC_END"
proof -
  let ?H = "header_of familyid start n i"
  let ?c = "slice content (256 * i) (256 * i + 256)"
  from assms obtain hdr tail where
    p: "struct_pack ?H = Inr hdr" and t: "struct_pack [UF2_MAGIC_END] = Inr tail"
    and b: "blk = hdr @ pad_chunk ?c @ replicate 220 0 @ tail"
    by (auto simp: to_uf2_block_def Let_def header_of_def split: sum.splits if_splits)
  from struct_pack_Inr[OF p] struct_pack_Inr[OF t] pad_chunk_eq[OF length_slice_le[of content "256 * i" 256]] b
  show ?thesis by (simp add: chunk_of_def Let_def)
qed

lemma to_uf2_loop_Inr:
  "to_uf2_loop familyid start (replicate 220 0) content n ixs out = Inr res \<Longrightarrow>
   list_all (\<lambda>i. list_all (\<lambda>v. 0 \<le> v \<and> v < 4294967296) (header_of familyid start n i)) ixs \<and>
   res = out @ map (\<lambda>i. concat (map le_bytes4 (header_of familyid start n i)) @ chunk_of content i
               @ replicate 220 0 @ le_bytes4 UF2_MAGIC_END) ixs"
proof (induction ixs arbitrary: out)
  case Nil
  then show ?case by simp
next
  case (Cons i ixs)
  from Cons.prems obtain blk where
    b: "to_uf2_block familyid start (replicate 220 0) content n i = Inr blk"
    and r: "to_uf2_loop familyid start (replicate 220 0) content n ixs (out @ [blk]) = Inr res"
    by (auto split: sum.splits)
  from to_uf2_block_Inr[OF b] Cons.IH[OF r] show ?case by simp
qed

lemma length_enc_block: "length (enc_block familyid start content n i) = 512"
  by (simp add: enc_block_def length_concat_le_bytes4 length_chunk_of length_le_bytes4)
    (simp add: header_of_def)

lemma convert_to_uf2_Inr:
  assumes "convert_to_uf2 familyid start content = Inr u"
  shows "list_all (\<lambda>i. list_all (\<lambda>v. 0 \<le> v \<and> v < 4294967296)
            (header_of familyid start ((length content + 255) div 256) i)) [0..<(length content + 255) div 256] \<and>
         u = concat (map (enc_block familyid start content ((length content + 255) div 256))
                       [0..<(length content + 255) div 256])"
proof -
  let ?n = "(length content + 255) div 256"
  from assms obtain res where
    l: "to_uf2_loop familyid start (replicate 220 0) content ?n [0..<?n] [] = Inr res"
    and u: "u = concat res"
    by (auto simp: convert_to_uf2_def Let_def mk_datapadding_Nil split: sum.splits)
  from to_uf2_loop_Inr[OF l] u show ?thesis
    by (simp add: enc_block_def[abs_def])
qed

lemma flags_simps:
  "uf2_flags familyid AND 1 = 0"
  "uf2_flags familyid AND 0x2000 \<noteq> 0 \<longleftrightarrow> familyid \<noteq> 0"
  by (simp_all add: uf2_flags_def)

lemma accept_rt:
  assumes inv: "rt_inv familyid start content k st"
    and f: "flt = familyid \<or> flt = 0"
    and c: "slice B 32 (32 + 256) = chunk_of content k"
  shows "\<exists>st'. uf2_accept flt B (header_of familyid start n k) st = Inr st' \<and>
               rt_inv familyid start content (Suc k) st'"
proof (cases "k = 0")
  case True
  with inv have st: "outp st = []" "curraddr st = None"
    "currfamilyid st = None" "families_found st = []"
    by (simp_all add: rt_inv_def)
  show ?thesis
  proof (cases "familyid = 0")
    case f0: True
    with f have "flt = 0" by auto
    with True f0 st c show ?thesis
      by (simp add: uf2_accept_def uf2_adopt_def uf2_gap_def header_of_def flags_simps Let_def
            pad_loop_0 rt_inv_def)
  next
    case f1: False
    with True f st c show ?thesis
      by (auto simp add: uf2_accept_def uf2_adopt_def uf2_gap_def header_of_def flags_simps Let_def
            pad_loop_0 rt_inv_def note_family_def)
  qed
next
  case False
  with inv have st: "appstartaddr st = start" "outp st = map (chunk_of content) [0..<k]"
    "curraddr st = Some (start + 256 * int k)" "currfamilyid st = Some familyid"
    "families_found st = (if familyid \<noteq> 0 then [(familyid, start)] else [])"
    by (simp_all add: rt_inv_def)
  show ?thesis
  proof (cases "familyid = 0")
    case f0: True
    with f have "flt = 0" by auto
    with False f0 st c show ?thesis
      by (simp add: uf2_accept_def uf2_adopt_def uf2_gap_def header_of_def flags_simps Let_def
            pad_loop_0 rt_inv_def algebra_simps)
  next
    case f1: False
    with False f st c show ?thesis
      by (auto simp add: uf2_accept_def uf2_adopt_def uf2_gap_def header_of_def flags_simps Let_def
            pad_loop_0 rt_inv_def note_family_def algebra_simps)
  qed
qed

lemma concat_block_at:
  "(\<forall>b \<in> set bs. length b = k) \<Longrightarrow> i < length bs \<Longrightarrow>
   take k (drop (i * k) (concat bs)) = bs ! i"
proof (induction bs arbitrary: i)
  case Nil
  then show ?case by simp
next
  case (Cons b bs)
  then have lb: "length b = k" and rest: "\<forall>b \<in> set bs. length b = k" by simp_all
  show ?case
  proof (cases i)
    case 0
    with lb show ?thesis by simp
  next
    case (Suc j)
    with Cons.prems have j: "j < length bs" by simp
    have "drop (i * k) (concat (b # bs)) = drop (j * k) (concat bs)"
      using Suc lb by simp
    with Cons.IH[OF rest j] Suc show ?thesis by simp
  qed
qed

lemma uf2_block_concat:
  assumes "i < n"
  shows "uf2_block (concat (map (enc_block familyid start content n) [0..<n])) i
         = enc_block familyid start content n i"
proof -
  let ?bs = "map (enc_block familyid start content n) [0..<n]"
  have "\<forall>b \<in> set ?bs. length b = 512" by (auto simp: length_enc_block)
  moreover have "i < length ?bs" using assms by simp
  ultimately have "take 512 (drop (i * 512) (concat ?bs)) = ?bs ! i" by (rule concat_block_at)
  then show ?thesis using assms by (simp add: uf2_block_def slice_def Let_def)
qed

lemma uf2_header_enc_block:
  assumes "list_all (\<lambda>v. 0 \<le> v \<and> v < 4294967296) (header_of familyid start n i)"
  shows "uf2_header (enc_block familyid start content n i) = Inr (header_of familyid start n i)"
proof -
  let ?H = "header_of familyid start n i"
  have l: "length (concat (map le_bytes4 ?H)) = 32"
    by (simp only: length_concat_le_bytes4) (simp add: header_of_def)
  have 8: "length ?H = 8" by (simp add: header_of_def)
  have "slice (enc_block familyid start content n i) 0 32 = concat (map le_bytes4 ?H)"
    unfolding enc_block_def slice_def using l by simp
  moreover have "unpack_words 8 (concat (map le_bytes4 ?H) @ []) = ?H"
    using unpack_words_concat[OF assms, of "[]"] 8 by simp
  ultimately show ?thesis by (simp add: uf2_header_def struct_unpack_def l)
qed

lemma payload_enc_block:
  "slice (enc_block familyid start content n i) 32 (32 + 256) = chunk_of content i"
proof -
  let ?H = "header_of familyid start n i"
  have l: "length (concat (map le_bytes4 ?H)) = 32"
    by (simp only: length_concat_le_bytes4) (simp add: header_of_def)
  show ?thesis
    unfolding enc_block_def slice_def using l length_chunk_of[of content i] by simp
qed

lemma body_rt:
  assumes inv: "rt_inv familyid start content k st"
    and f: "flt = familyid \<or> flt = 0"
    and k: "k < n"
    and r: "list_all (\<lambda>v. 0 \<le> v \<and> v < 4294967296) (header_of familyid start n k)"
  shows "\<exists>st'. uf2_body flt (concat (map (enc_block familyid start content n) [0..<n])) n k st = Inr st' \<and>
               rt_inv familyid start content (Suc k) st'"
proof -
  let ?u = "concat (map (enc_block familyid start content n) [0..<n])"
  let ?H = "header_of familyid start n k"
  have b: "uf2_block ?u k = enc_block familyid start content n k" by (rule uf2_block_concat[OF k])
  have h: "uf2_header (enc_block familyid start content n k) = Inr ?H"
    by (rule uf2_header_enc_block[OF r])
  from accept_rt[OF inv f payload_enc_block] obtain st' where
    a: "uf2_accept flt (enc_block familyid start content n k) ?H st = Inr st'"
    and i: "rt_inv familyid start content (Suc k) st'" by blast
  have H: "?H ! 0 = UF2_MAGIC_START0" "?H ! Suc 0 = UF2_MAGIC_START1" "?H ! 2 AND 1 = 0" "?H ! 4 = 256"
    by (simp_all add: header_of_def flags_simps)
  from i have "length (families_found st') \<le> 1" by (simp add: rt_inv_def)
  then have s: "uf2_summary flt st' = st'" by (simp add: uf2_summary_def)
  have "uf2_body flt ?u n k st = Inr st'"
    by (simp add: uf2_body_def Let_def b h H a s)
  with i show ?thesis by blast
qed

lemma loop_rt:
  assumes f: "flt = familyid \<or> flt = 0"
    and r: "list_all (\<lambda>i. list_all (\<lambda>v. 0 \<le> v \<and> v < 4294967296) (header_of familyid start n i)) [0..<n]"
  shows "k \<le> n \<Longrightarrow> rt_inv familyid start content 0 st0 \<Longrightarrow>
         \<exists>st. uf2_loop flt (concat (map (enc_block familyid start content n) [0..<n])) n [0..<k] st0 = Inr st \<and>
              rt_inv familyid start content k st"
proof (induction k)
  case 0
  then show ?case by simp
next
  case (Suc k)
  then obtain st where l: "uf2_loop flt (concat (map (enc_block familyid start content n) [0..<n])) n [0..<k] st0 = Inr st"
    and i: "rt_inv familyid start content k st" by auto
  from Suc.prems have k: "k < n" by simp
  with r have rk: "list_all (\<lambda>v. 0 \<le> v \<and> v < 4294967296) (header_of familyid start n k)"
    by (simp add: list_all_iff)
  from body_rt[OF i f k rk] obtain st' where
    b: "uf2_body flt (concat (map (enc_block familyid start content n) [0..<n])) n k st = Inr st'"
    and i': "rt_inv familyid start content (Suc k) st'" by blast
  have "uf2_loop flt (concat (map (enc_block familyid start content n) [0..<n])) n ([0..<k] @ [k]) st0 = Inr st'"
    by (simp add: uf2_loop_append l b)
  with i' show ?case by auto
qed

lemma chunk_of_full:
  assumes "256 * i + 256 \<le> length xs"
  shows "chunk_of xs i = take 256 (drop (256 * i) xs)"
proof -
  from assms have "length (take 256 (drop (256 * i) xs)) = 256" by simp
  then show ?thesis by (simp add: chunk_of_def slice_def Let_def)
qed

lemma chunks_full:
  "256 * k \<le> length xs \<Longrightarrow> concat (map (chunk_of xs) [0..<k]) = take (256 * k) xs"
proof (induction k)
  case 0
  show ?case by simp
next
  case (Suc k)
  then have le: "256 * k \<le> length xs" and full: "256 * k + 256 \<le> length xs" by simp_all
  have "256 * Suc k = 256 * k + 256" by simp
  then have "take (256 * Suc k) xs = take (256 * k + 256) xs" by (simp only:)
  also have "\<dots> = take (256 * k) xs @ take 256 (drop (256 * k) xs)" by (rule take_add)
  finally show ?case using Suc.IH[OF le] chunk_of_full[OF full] by simp
qed

lemma chunks_all:
  assumes n: "n = (length xs + 255) div 256"
  shows "concat (map (chunk_of xs) [0..<n]) = xs @ replicate (256 * n - length xs) 0"
proof (cases n)
  case 0
  with n have "length xs = 0" by (simp add: div_eq_0_iff)
  with 0 show ?thesis by simp
next
  case (Suc m)
  have e: "256 * ((length xs + 255) div 256) + (length xs + 255) mod 256 = length xs + 255"
    by (rule mult_div_mod_eq)
  have m: "(length xs + 255) mod 256 < 256" by simp
  from e m n have up: "length xs \<le> 256 * n" and lo: "256 * n \<le> length xs + 255"
    by linarith+
  from lo Suc have le: "256 * m \<le> length xs" by simp
  from up Suc have rem: "length (drop (256 * m) xs) \<le> 256" by simp
  then have t: "take 256 (drop (256 * m) xs) = drop (256 * m) xs" by simp
  have last: "chunk_of xs m = drop (256 * m) xs @ replicate (256 * n - length xs) 0"
    using up le Suc by (simp add: chunk_of_def slice_def Let_def t)
  have "concat (map (chunk_of xs) [0..<Suc m]) = take (256 * m) xs @ chunk_of xs m"
    using chunks_full[OF le] by simp
  also have "\<dots> = xs @ replicate (256 * n - length xs) 0"
    by (simp add: last)
  finally show ?thesis using Suc by simp
qed

lemma rt_inv_init: "rt_inv familyid start content 0 (uf2_init a0)"
  by (simp add: rt_inv_def uf2_init_def)

lemma decode_of_encode:
  assumes enc: "convert_to_uf2 familyid start content = Inr u"
    and f: "flt = familyid \<or> flt = 0"
  shows "convert_from_uf2 flt a0 u =
           Inr (content @ replicate (256 * ((length content + 255) div 256) - length content) 0,
                if content = [] then a0 else start)"
proof -
  let ?n = "(length content + 255) div 256"
  from convert_to_uf2_Inr[OF enc] have
    r: "list_all (\<lambda>i. list_all (\<lambda>v. 0 \<le> v \<and> v < 4294967296) (header_of familyid start ?n i)) [0..<?n]"
    and u: "u = concat (map (enc_block familyid start content ?n) [0..<?n])" by simp_all
  have len: "length u = 512 * ?n"
    unfolding u by (simp add: length_concat comp_def length_enc_block sum_list_triv)
  then have nb: "length u div 512 = ?n" by simp
  from loop_rt[OF f r order_refl rt_inv_init, of content a0] obtain st where
    l: "uf2_loop flt u ?n [0..<?n] (uf2_init a0) = Inr st"
    and i: "rt_inv familyid start content ?n st" unfolding u by blast
  from i have o: "outp st = map (chunk_of content) [0..<?n]"
    by (simp add: rt_inv_def)
  have a: "appstartaddr st = (if content = [] then a0 else start)"
  proof (cases "content = []")
    case True
    with l have "st = uf2_init a0" by simp
    with True show ?thesis by (simp add: uf2_init_def)
  next
    case False
    then have "Suc 0 \<le> length content" by (cases content) simp_all
    then have "0 < ?n" by (simp add: div_greater_zero_iff)
    with i False show ?thesis by (simp add: rt_inv_def)
  qed
  have "uf2_run flt a0 u = Inr st" by (simp add: uf2_run_def nb l)
  then show ?thesis
    by (simp add: convert_from_uf2_def a o chunks_all[OF refl])
qed

lemma struct_pack_ok:
  "list_all (\<lambda>v. 0 \<le> v \<and> v < 4294967296) vs \<Longrightarrow> struct_pack vs = Inr (concat (map le_bytes4 vs))"
  by (simp add: struct_pack_def)

lemma to_uf2_block_ok:
  assumes "list_all (\<lambda>v. 0 \<le> v \<and> v < 4294967296) (header_of familyid start n i)"
  shows "to_uf2_block familyid start (replicate 220 0) content n i = Inr (enc_block familyid start content n i)"
proof -
  have c: "pad_chunk (slice content (256 * i) (256 * i + 256)) = chunk_of content i"
    using pad_chunk_eq[OF length_slice_le[of content "256 * i" 256]] by (simp add: chunk_of_def Let_def)
  have e: "struct_pack [UF2_MAGIC_END] = Inr (le_bytes4 UF2_MAGIC_END)"
    by (simp add: struct_pack_def UF2_MAGIC_END_def)
  have h: "struct_pack [UF2_MAGIC_START0, UF2_MAGIC_START1, uf2_flags familyid, int (256 * i) + start, 256,
                        int i, int n, familyid] = Inr (concat (map le_bytes4 (header_of familyid start n i)))"
    using struct_pack_ok[OF assms] by (simp only: header_of_def)
  have l: "length (enc_block familyid start content n i) = 512" by (rule length_enc_block)
  show ?thesis
    unfolding to_uf2_block_def Let_def h e c
    using l by (simp add: enc_block_def)
qed

lemma to_uf2_loop_ok:
  "list_all (\<lambda>i. list_all (\<lambda>v. 0 \<le> v \<and> v < 4294967296) (header_of familyid start n i)) ixs \<Longrightarrow>
   to_uf2_loop familyid start (replicate 220 0) content n ixs out
     = Inr (out @ map (enc_block familyid start content n) ixs)"
  by (induction ixs arbitrary: out) (simp_all add: to_uf2_block_ok)

lemma convert_to_uf2_succeeds:
  assumes f: "0 \<le> familyid" "familyid < 4294967296"
    and s: "0 \<le> start" "start + 256 * int ((length content + 255) div 256) \<le> 4294967296"
  shows "\<exists>u. convert_to_uf2 familyid start content = Inr u"
proof -
  let ?n = "(length content + 255) div 256"
  have "list_all (\<lambda>v. 0 \<le> v \<and> v < 4294967296) (header_of familyid start ?n i)" if "i < ?n" for i
  proof -
    from that have "int i + 1 \<le> int ?n" by simp
    then have "256 * int i + 256 \<le> 256 * int ?n" by simp
    with s have a: "int (256 * i) + start < 4294967296" by simp
    from s that have n: "int ?n < 4294967296" "int i < 4294967296" by simp_all
    from f s a n show ?thesis
      by (simp add: header_of_def uf2_flags_def UF2_MAGIC_START0_def UF2_MAGIC_START1_def)
  qed
  then have "list_all (\<lambda>i. list_all (\<lambda>v. 0 \<le> v \<and> v < 4294967296) (header_of familyid start ?n i)) [0..<?n]"
    by (simp add: list_all_iff)
  from to_uf2_loop_ok[OF this, of content "[]"] show ?thesis
    by (simp add: convert_to_uf2_def Let_def mk_datapadding_Nil)
qed

text \<open>
  C1, as the code has it. \<open>convert_to_uf2\<close> pads the last chunk with zero bytes to 256 and
  writes 256 as the payload length of every block, and it raises \<open>struct.error\<close> when a
  header field does not fit 32 bits. So: whenever the encoding of a flat image returns,
  decoding the result under the same family filter or under no filter returns the
  original bytes followed by zero bytes up to the next multiple of 256; the bytes are the
  original ones exactly when the length is a multiple of 256. For every non-empty image
  the start address after decoding is the load address, whatever the global
  \<open>appstartaddr\<close> held before (\<open>a0\<close>). The empty image encodes to no block at all, so
  decoding it leaves the start address at \<open>a0\<close>, not at the load address.
\<close>

theorem uf2_roundtrip:
  assumes "convert_to_uf2 familyid start content = Inr u" and "flt = familyid \<or> flt = 0"
  shows "convert_from_uf2 flt a0 u =
           Inr (content @ replicate (256 * ((length content + 255) div 256) - length content) 0,
                if content = [] then a0 else start)
         \<and> (length content mod 256 = 0 \<longrightarrow>
              convert_from_uf2 flt a0 u = Inr (content, if content = [] then a0 else start))"
proof -
  let ?n = "(length content + 255) div 256"
  note p = decode_of_encode[OF assms, of a0]
  have "256 * ?n - length content = 0" if "length content mod 256 = 0"
  proof -
    from that obtain k where k: "length content = 256 * k" by (auto simp: mod_eq_0_iff_dvd)
    then have "?n = k" by simp
    with k show ?thesis by simp
  qed
  with p show ?thesis by simp
qed

text \<open>
  The claim as stated fails for the one-byte image \<open>[1]\<close> at 0x2000: it comes back as 256
  bytes. It also fails for the empty image loaded at 0x8000: its encoding is the empty
  buffer, and decoding that with \<open>appstartaddr\<close> at its initial value 0x2000 returns start
  address 0x2000, not 0x8000.
\<close>

theorem uf2_roundtrip_counterexample:
  "(case convert_to_uf2 0 0x2000 [1] of
      Inl e \<Rightarrow> False
    | Inr u \<Rightarrow> convert_from_uf2 0 0x2000 u = Inr (1 # replicate 255 0, 0x2000) \<and>
               convert_from_uf2 0 0x2000 u \<noteq> Inr ([1], 0x2000)) \<and>
   convert_to_uf2 0 0x8000 [] = Inr [] \<and>
   convert_from_uf2 0 0x2000 [] = Inr ([], 0x2000) \<and>
   convert_from_uf2 0 0x2000 [] \<noteq> Inr ([], 0x8000)"
  by code_simp

text \<open>
  An instance: three bytes at 0x2000, family 0xe48bff56, decoded with that filter and with
  none, starting from \<open>appstartaddr = 0\<close>.
\<close>

theorem uf2_roundtrip_witness:
  "\<exists>u. convert_to_uf2 0xe48bff56 0x2000 [1, 2, 3] = Inr u \<and>
       convert_from_uf2 0xe48bff56 0 u = Inr ([1, 2, 3] @ replicate 253 0, 0x2000) \<and>
       convert_from_uf2 0 0 u = Inr ([1, 2, 3] @ replicate 253 0, 0x2000)"
proof -
  have "\<not> isl (convert_to_uf2 0xe48bff56 0x2000 [1, 2, 3])" by code_simp
  then obtain u where u: "convert_to_uf2 0xe48bff56 0x2000 [1, 2, 3] = Inr u"
    by (cases "convert_to_uf2 0xe48bff56 0x2000 [1, 2, 3]") auto
  from uf2_roundtrip[OF u, of "0xe48bff56" 0] uf2_roundtrip[OF u, of 0 0] u
  show ?thesis by simp
qed

section \<open>Info mode in main\<close>

lemma deliver_info_str:
  assumes "arg_info a"
  shows "fst (deliver a drives_at board_id (Str []) ''uf2'' s) =
           (if (arg_convert a \<and> arg_output a = None) then [File ''flash.uf2'' []]
            else if arg_output a \<noteq> None \<and> arg_output a \<noteq> Some [] then [File (the (arg_output a)) []]
            else [])"
  using assms by (auto simp add: deliver_def Let_def write_file_def)

lemma convert_step_info:
  assumes "arg_info a" and "\<not> arg_deploy a"
  shows "(\<exists>e. convert_step a familyid start True inpbuf = Inl e) \<or>
         (\<exists>s. convert_step a familyid start True inpbuf = Inr (Str [], ''uf2'', Some s))"
  using assms by (auto simp add: convert_step_def split: sum.splits)

lemma main_info_effects:
  assumes i: "arg_input a = Some path" and p: "path \<noteq> []" and f: "files path = Some inpbuf"
    and u: "is_uf2 inpbuf = Inr True" and info: "arg_info a" and nd: "\<not> arg_deploy a"
  shows "fst (main a files drives_at board_id) = [] \<or>
         fst (main a files drives_at board_id) =
           (if (arg_convert a \<and> arg_output a = None) then [File ''flash.uf2'' []]
            else if arg_output a \<noteq> None \<and> arg_output a \<noteq> Some [] then [File (the (arg_output a)) []]
            else [])"
proof (cases "py_int (arg_base a) 0")
  case None
  then show ?thesis by (simp add: main_def)
next
  case (Some start)
  show ?thesis
  proof (cases "resolve_family (arg_family a)")
    case (Inl e)
    with Some show ?thesis by (simp add: main_def)
  next
    case (Inr familyid)
    show ?thesis
    proof (cases "arg_list a")
      case True
      with Some Inr show ?thesis by (simp add: main_def)
    next
      case False
      show ?thesis
      proof (cases "convert_step a familyid start True inpbuf")
        case (Inl e)
        with Some Inr False i p f u show ?thesis by (simp add: main_def)
      next
        case r: (Inr res)
        with convert_step_info[OF info nd, of familyid start inpbuf] obtain s where
          "convert_step a familyid start True inpbuf = Inr (Str [], ''uf2'', Some s)" by auto
        with Some Inr False i p f u
        have "main a files drives_at board_id = deliver a drives_at board_id (Str []) ''uf2'' (Some s)"
          by (simp add: main_def)
        then show ?thesis using deliver_info_str[OF info] by simp
      qed
    qed
  qed
qed

text \<open>
  C8, as the code has it. The branch for \<open>--deploy\<close> comes first in the chain of line 665,
  so info mode decides only when deploy mode is off. When the input is UF2, info mode is
  requested and deploy mode is not, no output bytes are produced: whatever else is given,
  no file ever receives a byte. When moreover no output path and no \<open>--convert\<close> is given,
  the run writes no file and no drive at all.
\<close>

theorem info_mode_no_output_bytes:
  assumes "arg_input a = Some path" and "path \<noteq> []" and "files path = Some inpbuf"
    and "is_uf2 inpbuf = Inr True" and "arg_info a" and "\<not> arg_deploy a"
  shows "(\<forall>name content. File name content \<in> set (fst (main a files drives_at board_id))
            \<longrightarrow> content = []) \<and>
         ((arg_output a = None \<or> arg_output a = Some []) \<and> \<not> arg_convert a
            \<longrightarrow> fst (main a files drives_at board_id) = [])"
  using assms main_info_effects[of a path files inpbuf drives_at board_id]
  by (auto split: if_splits)

text \<open>
  The claim as stated, regardless of the other options, fails with \<open>--deploy\<close>:
  \<open>uf2conv.py in.uf2 --info --deploy --output out.uf2\<close> passes the input through and writes
  it to \<open>out.uf2\<close>.
\<close>

theorem info_mode_counterexample:
  "is_uf2 (sample_block 0 0x2000 0 [1, 2, 3, 4]) = Inr True \<and>
   main (sample_args\<lparr>arg_deploy := True, arg_output := Some ''out.uf2''\<rparr>) sample_files
        (\<lambda>n. []) (\<lambda>d. Inl IOError)
     = ([File ''out.uf2'' (sample_block 0 0x2000 0 [1, 2, 3, 4])], Returned)"
  by code_simp

text \<open>
  With an output path or \<open>--convert\<close> and no \<open>--deploy\<close>, info mode reaches \<open>write_file\<close> with
  the \<open>str\<close> \<open>""\<close>: the file is created empty and the write raises \<open>TypeError\<close>.
\<close>

lemma info_mode_output_path:
  "main (sample_args\<lparr>arg_output := Some ''out.uf2''\<rparr>) sample_files (\<lambda>n. []) (\<lambda>d. Inl IOError)
     = ([File ''out.uf2'' []], Raised TypeError) \<and>
   main (sample_args\<lparr>arg_convert := True\<rparr>) sample_files (\<lambda>n. []) (\<lambda>d. Inl IOError)
     = ([File ''flash.uf2'' []], Raised TypeError)"
  by code_simp

text \<open>An instance: \<open>uf2conv.py in.uf2 --info\<close> has no effect on the file system.\<close>

theorem info_mode_no_output_bytes_witness:
  "arg_input sample_args = Some ''in.uf2'' \<and> sample_files ''in.uf2'' = Some (sample_block 0 0x2000 0 [1, 2, 3, 4]) \<and>
   is_uf2 (sample_block 0 0x2000 0 [1, 2, 3, 4]) = Inr True \<and> arg_info sample_args \<and>
   \<not> arg_deploy sample_args \<and> arg_output sample_args = None \<and> \<not> arg_convert sample_args \<and>
   fst (main sample_args sample_files (\<lambda>n. []) (\<lambda>d. Inl IOError)) = []"
proof -
  have u: "is_uf2 (sample_block 0 0x2000 0 [1, 2, 3, 4]) = Inr True" by code_simp
  have a: "arg_input sample_args = Some ''in.uf2''" "arg_info sample_args" "\<not> arg_deploy sample_args"
    "arg_output sample_args = None" "\<not> arg_convert sample_args"
    by (simp_all add: sample_args_def)
  have f: "sample_files ''in.uf2'' = Some (sample_block 0 0x2000 0 [1, 2, 3, 4])"
    by (simp add: sample_files_def)
  have p: "''in.uf2'' \<noteq> []" by simp
  from info_mode_no_output_bytes[of sample_args "''in.uf2''" sample_files
         "sample_block 0 0x2000 0 [1, 2, 3, 4]" "\<lambda>n. []" "\<lambda>d. Inl IOError"] a p f u
  have "fst (main sample_args sample_files (\<lambda>n. []) (\<lambda>d. Inl IOError)) = []" by blast
  with u a f show ?thesis by blast
qed


section \<open>Resolving the family argument\<close>

lemma load_families_table:
  "load_families = Inr (map (\<lambda>(fid, n). (n, the (py_int fid 0))) chip_families)"
  by code_simp

lemma chip_families_distinct: "distinct (map snd chip_families)"
  by code_simp

lemma chip_families_ids: "list_all (\<lambda>(fid, n). py_int fid 0 \<noteq> None) chip_families"
  by code_simp

lemma chip_families_initial:
  "list_all (\<lambda>(fid, n). case n of [] \<Rightarrow> False | c # cs \<Rightarrow> 10 \<le> digit_value c \<and> digit_value c < 36) chip_families"
  by code_simp

lemma digit_not_special:
  assumes "digit_value c < 36"
  shows "\<not> is_space c" and "c \<noteq> CHR ''+''" and "c \<noteq> CHR ''-''" and "c \<noteq> CHR ''_''"
  using assms by (auto simp: digit_value_def is_space_def Let_def split: if_splits)

lemma scan_digits_all:
  "base \<le> 36 \<Longrightarrow> list_all (\<lambda>c. digit_value c < base) ds \<Longrightarrow>
   scan_digits base False ds acc = Some (acc @ map digit_value ds, [])"
proof (induction ds arbitrary: acc)
  case Nil
  show ?case by simp
next
  case (Cons c ds)
  then have c: "digit_value c < base" and r: "list_all (\<lambda>c. digit_value c < base) ds" by simp_all
  from c Cons.prems(1) have "digit_value c < 36" by simp
  then have "c \<noteq> CHR ''_''" by (rule digit_not_special)
  with c Cons.IH[OF Cons.prems(1) r] show ?case by simp
qed

lemma py_int_prefixed:
  assumes d: "digits_in base ds"
    and p: "(p, base) \<in> set [(''0x'', 16), (''0X'', 16), (''0o'', 8), (''0O'', 8), (''0b'', 2), (''0B'', 2)]"
  shows "py_int (p @ ds) 0 = Some (literal_value base ds)"
proof -
  from d obtain c cs where ds: "ds = c # cs" and all: "list_all (\<lambda>c. digit_value c < base) ds"
    by (cases ds) (auto simp: digits_in_def)
  from p have b36: "base \<le> 36" by auto
  from all ds b36 have "digit_value c < 36" by simp
  then have c_: "c \<noteq> CHR ''_''" by (rule digit_not_special)
  have sp: "\<not> is_space CHR ''0''" by (simp add: is_space_def)
  have scan: "scan_digits base False ds [] = Some (map digit_value ds, [])"
    using scan_digits_all[OF b36 all, of "[]"] by simp
  from p consider "p = ''0x''" "base = 16" | "p = ''0X''" "base = 16" | "p = ''0o''" "base = 8"
    | "p = ''0O''" "base = 8" | "p = ''0b''" "base = 2" | "p = ''0B''" "base = 2" by auto
  then show ?thesis
  proof cases
    case 1
    with scan ds c_ sp show ?thesis
      by (simp add: py_int_def int_sign_def int_base_def int_prefix_def literal_value_def Let_def)
  next
    case 2
    with scan ds c_ sp show ?thesis
      by (simp add: py_int_def int_sign_def int_base_def int_prefix_def literal_value_def Let_def)
  next
    case 3
    with scan ds c_ sp show ?thesis
      by (simp add: py_int_def int_sign_def int_base_def int_prefix_def literal_value_def Let_def)
  next
    case 4
    with scan ds c_ sp show ?thesis
      by (simp add: py_int_def int_sign_def int_base_def int_prefix_def literal_value_def Let_def)
  next
    case 5
    with scan ds c_ sp show ?thesis
      by (simp add: py_int_def int_sign_def int_base_def int_prefix_def literal_value_def Let_def)
  next
    case 6
    with scan ds c_ sp show ?thesis
      by (simp add: py_int_def int_sign_def int_base_def int_prefix_def literal_value_def Let_def)
  qed
qed

lemma py_int_decimal:
  assumes d: "digits_in 10 ds" and z: "take 1 ds \<noteq> ''0''" and l: "length ds \<le> 4300"
  shows "py_int ds 0 = Some (literal_value 10 ds)"
proof -
  from d obtain c cs where ds: "ds = c # cs" and all: "list_all (\<lambda>c. digit_value c < 10) ds"
    by (cases ds) (auto simp: digits_in_def)
  from all ds have c36: "digit_value c < 36" by simp
  note c = digit_not_special[OF c36]
  have scan: "scan_digits 10 False ds [] = Some (map digit_value ds, [])"
    using scan_digits_all[OF _ all, of "[]"] by simp
  from z ds have c0: "c \<noteq> CHR ''0''" by simp
  have dw: "dropWhile is_space ds = ds" using ds c(1) by simp
  have sg: "int_sign ds = (1, ds)" using ds c(2,3) by (simp add: int_sign_def)
  have ib: "int_base 0 ds = (10, False)" using ds c0 by (simp add: int_base_def)
  have ip: "int_prefix 10 ds = ds" by (simp add: int_prefix_def)
  have us: "take (Suc 0) ds \<noteq> ''_''" using ds c(4) by simp
  have ne: "ds \<noteq> []" using ds by simp
  show ?thesis
    using l ne by (simp add: py_int_def dw sg ib ip us scan literal_value_def)
qed

lemma py_int_zero: "py_int ''0'' 0 = Some (literal_value 10 ''0'')"
  by code_simp

lemma map_of_table:
  "distinct (map snd xs) \<Longrightarrow> (a, b) \<in> set xs \<Longrightarrow>
   map_of (map (\<lambda>(a, b). (b, g a)) xs) b = Some (g a)"
proof (induction xs)
  case Nil
  then show ?case by simp
next
  case (Cons x xs)
  obtain a' b' where x: "x = (a', b')" by (cases x)
  show ?case
  proof (cases "b' = b")
    case True
    with Cons.prems x have "(a, b) \<notin> set xs" by (auto simp: image_iff)
    with Cons.prems x True show ?thesis by simp
  next
    case False
    with Cons x show ?thesis by auto
  qed
qed

lemma table_keys: "fst ` set (map (\<lambda>(a, b). (b, g a)) xs) = snd ` set xs"
  by (induction xs) auto

lemma resolve_family_name:
  assumes m: "(fid, name) \<in> set chip_families" and u: "upper s = name"
  shows "\<exists>v. py_int fid 0 = Some v \<and> resolve_family s = Inr v"
proof -
  from chip_families_ids m have "py_int fid 0 \<noteq> None" by (auto simp: list_all_iff)
  then obtain v where v: "py_int fid 0 = Some v" by auto
  have "map_of (map (\<lambda>(fid, n). (n, the (py_int fid 0))) chip_families) name = Some (the (py_int fid 0))"
    by (rule map_of_table[OF chip_families_distinct m])
  with v u have "resolve_family s = Inr v"
    by (simp add: resolve_family_def load_families_table)
  with v show ?thesis by blast
qed

lemma resolve_family_other:
  assumes "upper s \<notin> snd ` set chip_families"
  shows "resolve_family s =
           (case py_int s 0 of
              Some v \<Rightarrow> Inr v
            | None \<Rightarrow> Inl (SystemExit (''Family ID needs to be a number or one of: ''
                                       @ join '', '' (map snd chip_families))))"
proof -
  let ?T = "map (\<lambda>(fid, n). (n, the (py_int fid 0))) chip_families"
  have "upper s \<notin> fst ` set ?T" unfolding table_keys by (rule assms)
  then have n: "map_of ?T (upper s) = None" by (rule map_of_eq_None_iff[THEN iffD2])
  have k: "map fst ?T = map snd chip_families" by (simp add: comp_def case_prod_beta)
  show ?thesis
    by (simp only: resolve_family_def load_families_table sum.case n option.case k)
qed

lemma digit_upper_char: "digit_value c < 10 \<Longrightarrow> upper_char c = [c]"
  by (auto simp: digit_value_def upper_char_def Let_def split: if_splits)

lemma digit_first_no_name:
  assumes "digit_value c < 10"
  shows "upper (c # cs) \<notin> snd ` set chip_families"
proof
  assume "upper (c # cs) \<in> snd ` set chip_families"
  then obtain fid where m: "(fid, upper (c # cs)) \<in> set chip_families" by auto
  have "upper (c # cs) = c # upper cs" using digit_upper_char[OF assms] by (simp add: upper_def)
  with m chip_families_initial have "10 \<le> digit_value c" by (auto simp: list_all_iff)
  with assms show False by simp
qed

lemma resolve_family_prefixed:
  assumes d: "digits_in base ds"
    and p: "(p, base) \<in> set [(''0x'', 16), (''0X'', 16), (''0o'', 8), (''0O'', 8), (''0b'', 2), (''0B'', 2)]"
  shows "resolve_family (p @ ds) = Inr (literal_value base ds)"
proof -
  from p obtain q where q: "p @ ds = CHR ''0'' # q" by auto
  have "digit_value CHR ''0'' < 10" by (simp add: digit_value_def)
  then have "upper (p @ ds) \<notin> snd ` set chip_families"
    unfolding q by (rule digit_first_no_name)
  from resolve_family_other[OF this] py_int_prefixed[OF d p] show ?thesis by simp
qed

lemma resolve_family_decimal:
  assumes d: "digits_in 10 ds" and z: "take 1 ds \<noteq> ''0'' \<or> ds = ''0''" and l: "length ds \<le> 4300"
  shows "resolve_family ds = Inr (literal_value 10 ds)"
proof -
  from d obtain c cs where ds: "ds = c # cs" and c: "digit_value c < 10"
    by (cases ds) (auto simp: digits_in_def)
  have n: "upper ds \<notin> snd ` set chip_families"
    unfolding ds using c by (rule digit_first_no_name)
  from z have "py_int ds 0 = Some (literal_value 10 ds)"
  proof
    assume "take 1 ds \<noteq> ''0''"
    from py_int_decimal[OF d this l] show ?thesis .
  next
    assume "ds = ''0''"
    with py_int_zero show ?thesis by simp
  qed
  with resolve_family_other[OF n] show ?thesis by simp
qed

text \<open>
  C6, as the code has it. The argument is looked up in upper case and otherwise handed to
  \<open>int(s, 0)\<close>. A registered short name is found from every spelling whose upper-case form
  is the name. A numeric literal is accepted in hex (\<open>0x\<close>), in decimal (without a
  superfluous leading zero, at most 4300 digits), and also in octal (\<open>0o\<close>) and binary
  (\<open>0b\<close>) form. An argument whose upper-case form is no registered name and that \<open>int\<close>
  rejects ends in the fatal error that lists the registered names.
\<close>

theorem family_resolution:
  "((fid, name) \<in> set chip_families \<and> upper s = name
      \<longrightarrow> (\<exists>v. py_int fid 0 = Some v \<and> resolve_family s = Inr v)) \<and>
   (digits_in 16 ds \<and> p \<in> set [''0x'', ''0X'']
      \<longrightarrow> resolve_family (p @ ds) = Inr (literal_value 16 ds)) \<and>
   (digits_in 10 ds \<and> (take 1 ds \<noteq> ''0'' \<or> ds = ''0'') \<and> length ds \<le> 4300
      \<longrightarrow> resolve_family ds = Inr (literal_value 10 ds)) \<and>
   (digits_in 8 ds \<and> p \<in> set [''0o'', ''0O'']
      \<longrightarrow> resolve_family (p @ ds) = Inr (literal_value 8 ds)) \<and>
   (digits_in 2 ds \<and> p \<in> set [''0b'', ''0B'']
      \<longrightarrow> resolve_family (p @ ds) = Inr (literal_value 2 ds)) \<and>
   (upper s \<notin> snd ` set chip_families \<and> py_int s 0 = None
      \<longrightarrow> resolve_family s = Inl (SystemExit (''Family ID needs to be a number or one of: ''
                                               @ join '', '' (map snd chip_families))))"
proof (intro conjI impI)
  assume "(fid, name) \<in> set chip_families \<and> upper s = name"
  then show "\<exists>v. py_int fid 0 = Some v \<and> resolve_family s = Inr v"
    using resolve_family_name by blast
next
  assume "digits_in 16 ds \<and> p \<in> set [''0x'', ''0X'']"
  then show "resolve_family (p @ ds) = Inr (literal_value 16 ds)"
    using resolve_family_prefixed[of 16 ds p] by auto
next
  assume "digits_in 10 ds \<and> (take 1 ds \<noteq> ''0'' \<or> ds = ''0'') \<and> length ds \<le> 4300"
  then show "resolve_family ds = Inr (literal_value 10 ds)"
    using resolve_family_decimal[of ds] by blast
next
  assume "digits_in 8 ds \<and> p \<in> set [''0o'', ''0O'']"
  then show "resolve_family (p @ ds) = Inr (literal_value 8 ds)"
    using resolve_family_prefixed[of 8 ds p] by auto
next
  assume "digits_in 2 ds \<and> p \<in> set [''0b'', ''0B'']"
  then show "resolve_family (p @ ds) = Inr (literal_value 2 ds)"
    using resolve_family_prefixed[of 2 ds p] by auto
next
  assume "upper s \<notin> snd ` set chip_families \<and> py_int s 0 = None"
  then show "resolve_family s = Inl (SystemExit (''Family ID needs to be a number or one of: ''
                                               @ join '', '' (map snd chip_families)))"
    using resolve_family_other[of s] by simp
qed

text \<open>
  The claim as stated says that an argument that is neither a registered name nor a hex
  or decimal literal is a fatal error; the binary literal \<open>0b11\<close> and the octal literal
  \<open>0o17\<close> are neither, and resolve to 3 and 15.
\<close>

theorem family_resolution_counterexample:
  "resolve_family ''0b11'' = Inr 3 \<and> resolve_family ''0o17'' = Inr 15"
proof -
  have d: "digits_in 2 ''11''" "digits_in 8 ''17''" by code_simp+
  have v: "literal_value 2 ''11'' = 3" "literal_value 8 ''17'' = 15" by code_simp+
  from resolve_family_prefixed[OF d(1), of "''0b''"] resolve_family_prefixed[OF d(2), of "''0o''"] v
  show ?thesis by simp
qed

text \<open>
  Five registered short names contain lower-case letters. The upper-case form of the
  argument never equals one of them, so these names, spelled as registered, are not
  found and end in the error.
\<close>

lemma family_lowercase_names:
  "list_all (\<lambda>n. n \<in> snd ` set chip_families \<and> isl (resolve_family n))
     [''MaixPlay-U4'', ''STM32F411xE'', ''STM32F411xC'', ''NRF52832xxAA'', ''NRF52832xxAB'']"
proof -
  have "n \<in> snd ` set chip_families \<and> isl (resolve_family n)"
    if m: "n \<in> snd ` set chip_families" and u: "upper n \<notin> snd ` set chip_families"
      and p: "py_int n 0 = None" for n
    using resolve_family_other[OF u] m p by simp
  moreover have "list_all (\<lambda>n. n \<in> snd ` set chip_families \<and> upper n \<notin> snd ` set chip_families \<and> py_int n 0 = None)
     [''MaixPlay-U4'', ''STM32F411xE'', ''STM32F411xC'', ''NRF52832xxAA'', ''NRF52832xxAB'']"
    by code_simp
  ultimately show ?thesis by (simp add: list_all_iff)
qed

text \<open>Instances of every part.\<close>

theorem family_resolution_witness:
  "resolve_family ''rp2040'' = Inr 0xe48bff56 \<and> resolve_family ''Rp2040'' = Inr 0xe48bff56 \<and>
   resolve_family ''0x1F'' = Inr 31 \<and> resolve_family ''42'' = Inr 42 \<and>
   resolve_family ''0O17'' = Inr 15 \<and> resolve_family ''0B101'' = Inr 5 \<and>
   isl (resolve_family ''bogus'')"
proof -
  have m: "(''0xe48bff56'', ''RP2040'') \<in> set chip_families" by code_simp
  have u: "upper ''rp2040'' = ''RP2040''" "upper ''Rp2040'' = ''RP2040''" by code_simp+
  have i: "py_int ''0xe48bff56'' 0 = Some 0xe48bff56" by code_simp
  have d: "digits_in 16 ''1F''" "digits_in 10 ''42''" "digits_in 8 ''17''" "digits_in 2 ''101''"
    by code_simp+
  have v: "literal_value 16 ''1F'' = 31" "literal_value 10 ''42'' = 42" "literal_value 8 ''17'' = 15"
    "literal_value 2 ''101'' = 5" by code_simp+
  have b: "upper ''bogus'' \<notin> snd ` set chip_families" "py_int ''bogus'' 0 = None" by code_simp+
  from family_resolution[of "''0xe48bff56''" "''RP2040''" "''rp2040''" "''1F''" "''0x''"] m u i d v
  have c1: "resolve_family ''rp2040'' = Inr 0xe48bff56" "resolve_family ''0x1F'' = Inr 31" by auto
  from family_resolution[of "''0xe48bff56''" "''RP2040''" "''Rp2040''" "''42''" "''0x''"] m u i d v
  have c2: "resolve_family ''Rp2040'' = Inr 0xe48bff56" "resolve_family ''42'' = Inr 42" by auto
  from family_resolution[of "''0xe48bff56''" "''RP2040''" "''bogus''" "''17''" "''0O''"] b d v
  have c3: "resolve_family ''0O17'' = Inr 15" "isl (resolve_family ''bogus'')" by auto
  from family_resolution[of "''0xe48bff56''" "''RP2040''" "''bogus''" "''101''" "''0B''"] d v
  have c4: "resolve_family ''0B101'' = Inr 5" by auto
  from c1 c2 c3 c4 show ?thesis by simp
qed


section \<open>The hex decoder: blocks in order of appearance\<close>





































section \<open>The hex decoder: shape of the output\<close>



end
